theory Spec2Isabelle
  imports Main
begin

section \<open>Python strings\<close>

text \<open>
  A Python \<open>str\<close> is modelled as a \<open>string\<close> whose characters are the code points
  below 256. The helpers follow the built-in methods that \<open>app.py\<close> calls.
\<close>

definition is_space :: "char \<Rightarrow> bool" where
  \<comment> \<open>\<open>str.isspace\<close> on one character: the code points 9-13, 28-32, 133 and 160.\<close>
  "is_space c =
     (let n = (of_char c :: nat)
      in (9 \<le> n \<and> n \<le> 13) \<or> (28 \<le> n \<and> n \<le> 32) \<or> n = 133 \<or> n = 160)"

definition strip :: "string \<Rightarrow> string" where
  \<comment> \<open>\<open>s.strip()\<close>\<close>
  "strip s = rev (dropWhile is_space (rev (dropWhile is_space s)))"

definition strip_chr :: "char \<Rightarrow> string \<Rightarrow> string" where
  \<comment> \<open>\<open>s.strip(c)\<close> for a one-character argument\<close>
  "strip_chr c s = rev (dropWhile (\<lambda>x. x = c) (rev (dropWhile (\<lambda>x. x = c) s)))"

definition startswith :: "string \<Rightarrow> string \<Rightarrow> bool" where
  \<comment> \<open>\<open>s.startswith(p)\<close>\<close>
  "startswith s p = (take (length p) s = p)"

fun contains :: "string \<Rightarrow> string \<Rightarrow> bool" where
  \<comment> \<open>\<open>p in s\<close>\<close>
  "contains p [] = (p = [])"
| "contains p (c # cs) = (startswith (c # cs) p \<or> contains p cs)"

function replace :: "string \<Rightarrow> string \<Rightarrow> string \<Rightarrow> string" where
  \<comment> \<open>\<open>s.replace(old, new)\<close> for a non-empty \<open>old\<close>: every occurrence, left to right,
      without overlap. (For an empty \<open>old\<close> Python inserts \<open>new\<close> around every
      character; \<open>app.py\<close> never does that and the model returns \<open>s\<close>.)\<close>
  "replace old new s =
     (if old = [] \<or> s = [] then s
      else if startswith s old then new @ replace old new (drop (length old) s)
      else hd s # replace old new (tl s))"
  by pat_completeness auto
termination
  by (relation "measure (\<lambda>(old, new, s). length s)") auto

declare replace.simps [simp del]

definition basename :: "string \<Rightarrow> string" where
  \<comment> \<open>\<open>os.path.basename(p)\<close>: what follows the last slash\<close>
  "basename p = rev (takeWhile (\<lambda>c. c \<noteq> CHR ''/'') (rev p))"

definition path_join :: "string \<Rightarrow> string \<Rightarrow> string" where
  \<comment> \<open>\<open>os.path.join(a, b)\<close> on POSIX\<close>
  "path_join a b =
     (if startswith b ''/'' then b
      else if a = [] \<or> last a = CHR ''/'' then a @ b
      else a @ ''/'' @ b)"

definition digit_chr :: "nat \<Rightarrow> char" where
  "digit_chr d = ''0123456789'' ! d"

fun str_nat :: "nat \<Rightarrow> string" where
  \<comment> \<open>\<open>str(i)\<close> for a non-negative integer\<close>
  "str_nat n = (if n < 10 then [digit_chr n] else str_nat (n div 10) @ [digit_chr (n mod 10)])"

declare str_nat.simps [simp del]

section \<open>The data of a request and of the world around it\<close>

datatype exn = Raised string

text \<open>
  Floating-point values are only passed through (scales) or handed to the environment
  (clock readings): a float is carried as a mantissa and an exponent and never computed
  with here.
\<close>

datatype pyfloat = PyFloat int int

datatype image = Image nat

datatype generator = Generator string int

record call_args =
  kw_prompt :: string
  kw_negative_prompt :: string
  kw_height :: int
  kw_width :: int
  kw_guidance_scale :: pyfloat
  kw_num_inference_steps :: int
  kw_num_images_per_prompt :: int
  kw_generator :: generator
  kw_output_type :: string

text \<open>
  The shared pipeline \<open>pipe_qwen\<close>, as far as \<open>app.py\<close> touches it: the adapters it
  holds, whether LoRA layers are enabled, and the adapters selected with their weights.
\<close>

record pipe_state =
  adapters :: "string list"
  lora_enabled :: bool
  active :: "(string list \<times> pyfloat list) option"

datatype content =
    Bytes "string list"
  | Png image
  | ZipArchive "(string \<times> content) list"

record response =
  status_error :: "exn option"
  body :: "string list"
  body_error :: "exn option"

datatype event =
    RandInt int int
  | ManualSeed int
  | TimeTime
  | Uuid4
  | GetListAdapters
  | DeleteAdapters string
  | DisableLora
  | LoadLoraWeights string string
  | SetAdapters "string list" "pyfloat list"
  | PipeCall call_args
  | MkDtemp
  | RequestsGet string
  | RaiseForStatus
  | OpenWb string
  | WriteChunk string string
  | Rmtree string
  | ImgSave image string
  | ZipOpen string
  | ZipWrite string string string

text \<open>
  The log keeps every call that leaves \<open>app.py\<close>, in order, each with the state of the
  shared pipeline before and after it.
\<close>

datatype step = Step (call: event) (before: pipe_state) (after: pipe_state)

record world =
  pipe :: pipe_state
  dirs :: "string set"
  files :: "string \<Rightarrow> content option"
  log :: "step list"

record request =
  prompt :: string
  negative_prompt :: string
  seed :: int
  width :: int
  height :: int
  guidance_scale :: pyfloat
  randomize_seed :: bool
  num_inference_steps :: int
  num_images :: int
  zip_images :: bool
  lora_input :: string
  lora_scale :: pyfloat

record result =
  image_paths :: "string list"
  seed_used :: int
  duration :: string
  zip_path :: "string option"

text \<open>
  What lies outside \<open>app.py\<close> is a parameter: the random source, the clock, the
  pipeline library, \<open>urllib.parse.urlparse\<close>, the network and the failures of the file
  system. Every field sees the world in which the call is made, so that two calls with
  the same arguments may differ.
\<close>

record ext =
  device :: string
  random_bits :: "world \<Rightarrow> nat"
  manual_seed_error :: "world \<Rightarrow> int \<Rightarrow> exn option"
  clock :: "world \<Rightarrow> pyfloat"
  float_sub :: "pyfloat \<Rightarrow> pyfloat \<Rightarrow> pyfloat"
  format_2f :: "pyfloat \<Rightarrow> string"
  fresh_uuid :: "world \<Rightarrow> string"
  lib_get_list_adapters :: "world \<Rightarrow> exn + string list"
  lib_delete_adapters :: "world \<Rightarrow> string \<Rightarrow> exn option \<times> pipe_state"
  lib_disable_lora :: "world \<Rightarrow> exn option \<times> pipe_state"
  lib_load_lora_weights :: "world \<Rightarrow> string \<Rightarrow> string \<Rightarrow> exn option \<times> pipe_state"
  lib_set_adapters :: "world \<Rightarrow> string list \<Rightarrow> pyfloat list \<Rightarrow> exn option \<times> pipe_state"
  lib_call :: "world \<Rightarrow> call_args \<Rightarrow> (exn + image list) \<times> pipe_state"
  urlparse_path :: "string \<Rightarrow> exn + string"
  mkdtemp_result :: "world \<Rightarrow> exn + string"
  http_get :: "world \<Rightarrow> string \<Rightarrow> exn + response"
  open_error :: "world \<Rightarrow> string \<Rightarrow> exn option"
  write_error :: "world \<Rightarrow> string \<Rightarrow> string \<Rightarrow> exn option"
  img_save_error :: "world \<Rightarrow> image \<Rightarrow> string \<Rightarrow> exn option"
  zip_open_error :: "world \<Rightarrow> string \<Rightarrow> exn option"
  zip_write_error :: "world \<Rightarrow> string \<Rightarrow> string \<Rightarrow> string \<Rightarrow> exn option"

section \<open>Statements: a state and an outcome\<close>

text \<open>
  A statement takes the world and returns its outcome (\<open>Inl\<close> an exception that
  propagates, \<open>Inr\<close> a value) with the world it leaves.
\<close>

type_synonym 'a action = "world \<Rightarrow> (exn + 'a) \<times> world"

definition ret :: "'a \<Rightarrow> 'a action" where
  "ret x = (\<lambda>w. (Inr x, w))"

definition and_then :: "'a action \<Rightarrow> ('a \<Rightarrow> 'b action) \<Rightarrow> 'b action" where
  "and_then m f = (\<lambda>w. case m w of (Inl e, w') \<Rightarrow> (Inl e, w') | (Inr x, w') \<Rightarrow> f x w')"

definition try_finally :: "'a action \<Rightarrow> unit action \<Rightarrow> 'a action" where
  \<comment> \<open>\<open>try: m finally: fin\<close>: \<open>fin\<close> runs on both outcomes of \<open>m\<close>; an exception of
      \<open>fin\<close> replaces the outcome.\<close>
  "try_finally m fin =
     (\<lambda>w. case m w of (r, w') \<Rightarrow>
        (case fin w' of (Inl e, w'') \<Rightarrow> (Inl e, w'') | (Inr u, w'') \<Rightarrow> (r, w'')))"

definition record_call :: "event \<Rightarrow> pipe_state \<Rightarrow> world \<Rightarrow> world" where
  \<comment> \<open>a call that leaves the pipeline in state \<open>p\<close>\<close>
  "record_call ev p w = w\<lparr>pipe := p, log := log w @ [Step ev (pipe w) p]\<rparr>"

definition emit :: "event \<Rightarrow> world \<Rightarrow> world" where
  \<comment> \<open>a call that does not touch the pipeline\<close>
  "emit ev w = record_call ev (pipe w) w"

definition new_steps :: "world \<Rightarrow> world \<Rightarrow> step list" where
  \<comment> \<open>what was logged between an earlier world and a later one\<close>
  "new_steps w w' = drop (length (log w)) (log w')"

definition outcome :: "exn option \<Rightarrow> exn + unit" where
  "outcome r = (case r of None \<Rightarrow> Inr () | Some e \<Rightarrow> Inl e)"

section \<open>The calls that leave \<open>app.py\<close>\<close>

text \<open>
  Each external call appends its step to the log. \<open>random.randint(a, b)\<close> returns a value between
  \<open>a\<close> and \<open>b\<close>, both included, and raises when the range is empty.
\<close>

definition randint :: "ext \<Rightarrow> int \<Rightarrow> int \<Rightarrow> int action" where
  "randint x a b =
     (\<lambda>w. (if b < a then Inl (Raised ''ValueError'')
            else Inr (a + int (random_bits x w mod nat (b - a + 1))),
           emit (RandInt a b) w))"

definition manual_seed :: "ext \<Rightarrow> int \<Rightarrow> generator action" where
  \<comment> \<open>\<open>torch.Generator(device).manual_seed(seed)\<close>\<close>
  "manual_seed x s =
     (\<lambda>w. (case manual_seed_error x w s of
              Some e \<Rightarrow> Inl e
            | None \<Rightarrow> Inr (Generator (device x) s),
           emit (ManualSeed s) w))"

definition time_time :: "ext \<Rightarrow> pyfloat action" where
  "time_time x = (\<lambda>w. (Inr (clock x w), emit TimeTime w))"

definition uuid4 :: "ext \<Rightarrow> string action" where
  \<comment> \<open>\<open>str(uuid.uuid4())\<close>\<close>
  "uuid4 x = (\<lambda>w. (Inr (fresh_uuid x w), emit Uuid4 w))"

definition get_list_adapters :: "ext \<Rightarrow> string list action" where
  \<comment> \<open>the values that iterating \<open>pipe.get_list_adapters()\<close> yields\<close>
  "get_list_adapters x = (\<lambda>w. (lib_get_list_adapters x w, emit GetListAdapters w))"

definition delete_adapters :: "ext \<Rightarrow> string \<Rightarrow> unit action" where
  "delete_adapters x a =
     (\<lambda>w. case lib_delete_adapters x w a of
            (r, p) \<Rightarrow> (outcome r, record_call (DeleteAdapters a) p w))"

definition disable_lora :: "ext \<Rightarrow> unit action" where
  "disable_lora x =
     (\<lambda>w. case lib_disable_lora x w of
            (r, p) \<Rightarrow> (outcome r, record_call DisableLora p w))"

definition load_lora_weights :: "ext \<Rightarrow> string \<Rightarrow> string \<Rightarrow> unit action" where
  \<comment> \<open>\<open>pipe.load_lora_weights(src, adapter_name=name)\<close>\<close>
  "load_lora_weights x src name =
     (\<lambda>w. case lib_load_lora_weights x w src name of
            (r, p) \<Rightarrow> (outcome r, record_call (LoadLoraWeights src name) p w))"

definition set_adapters :: "ext \<Rightarrow> string list \<Rightarrow> pyfloat list \<Rightarrow> unit action" where
  "set_adapters x names weights =
     (\<lambda>w. case lib_set_adapters x w names weights of
            (r, p) \<Rightarrow> (outcome r, record_call (SetAdapters names weights) p w))"

definition pipe_call :: "ext \<Rightarrow> call_args \<Rightarrow> image list action" where
  \<comment> \<open>\<open>pipe(...).images\<close>\<close>
  "pipe_call x args =
     (\<lambda>w. case lib_call x w args of
            (r, p) \<Rightarrow> (r, record_call (PipeCall args) p w))"

definition urlparse_path_of :: "ext \<Rightarrow> string \<Rightarrow> string action" where
  \<comment> \<open>\<open>urlparse(url).path\<close>, which raises \<open>ValueError\<close> on a malformed network location\<close>
  "urlparse_path_of x url = (\<lambda>w. (urlparse_path x url, w))"

definition mkdtemp :: "ext \<Rightarrow> string action" where
  "mkdtemp x =
     (\<lambda>w. case mkdtemp_result x w of
            Inl e \<Rightarrow> (Inl e, emit MkDtemp w)
          | Inr d \<Rightarrow> (Inr d, (emit MkDtemp w)\<lparr>dirs := insert d (dirs w)\<rparr>))"

definition rmtree :: "string \<Rightarrow> unit action" where
  \<comment> \<open>\<open>shutil.rmtree(d, ignore_errors=True)\<close>: never raises; the directory and what is
      under it are gone\<close>
  "rmtree d =
     (\<lambda>w. (Inr (),
           (emit (Rmtree d) w)
             \<lparr>dirs := dirs w - {d},
              files := (\<lambda>p. if startswith p (d @ ''/'') then None else files w p)\<rparr>))"

definition requests_get :: "ext \<Rightarrow> string \<Rightarrow> response action" where
  \<comment> \<open>\<open>requests.get(url, stream=True)\<close>\<close>
  "requests_get x url = (\<lambda>w. (http_get x w url, emit (RequestsGet url) w))"

definition raise_for_status :: "response \<Rightarrow> unit action" where
  "raise_for_status resp = (\<lambda>w. (outcome (status_error resp), emit RaiseForStatus w))"

definition open_wb :: "ext \<Rightarrow> string \<Rightarrow> unit action" where
  \<comment> \<open>\<open>open(path, "wb")\<close>: the file exists and is empty\<close>
  "open_wb x path =
     (\<lambda>w. case open_error x w path of
            Some e \<Rightarrow> (Inl e, emit (OpenWb path) w)
          | None \<Rightarrow> (Inr (), (emit (OpenWb path) w)\<lparr>files := (files w)(path \<mapsto> Bytes [])\<rparr>))"

fun chunks_of :: "content option \<Rightarrow> string list" where
  "chunks_of (Some (Bytes cs)) = cs"
| "chunks_of _ = []"

definition write_chunk :: "ext \<Rightarrow> string \<Rightarrow> string \<Rightarrow> unit action" where
  \<comment> \<open>\<open>f.write(chunk)\<close>\<close>
  "write_chunk x path chunk =
     (\<lambda>w. case write_error x w path chunk of
            Some e \<Rightarrow> (Inl e, emit (WriteChunk path chunk) w)
          | None \<Rightarrow>
              (Inr (),
               (emit (WriteChunk path chunk) w)
                 \<lparr>files := (files w)(path \<mapsto> Bytes (chunks_of (files w path) @ [chunk]))\<rparr>))"

fun write_chunks :: "ext \<Rightarrow> string \<Rightarrow> string list \<Rightarrow> unit action" where
  "write_chunks x path [] = ret ()"
| "write_chunks x path (c # cs) = and_then (write_chunk x path c) (\<lambda>u. write_chunks x path cs)"

definition write_body :: "ext \<Rightarrow> string \<Rightarrow> response \<Rightarrow> unit action" where
  \<comment> \<open>\<open>for chunk in resp.iter_content(chunk_size=8192): f.write(chunk)\<close>; the stream
      may break after the chunks it delivered\<close>
  "write_body x path resp =
     and_then (write_chunks x path (body resp)) (\<lambda>u w. (outcome (body_error resp), w))"

definition img_save :: "ext \<Rightarrow> image \<Rightarrow> string \<Rightarrow> unit action" where
  \<comment> \<open>\<open>img.save(name)\<close>\<close>
  "img_save x img name =
     (\<lambda>w. case img_save_error x w img name of
            Some e \<Rightarrow> (Inl e, emit (ImgSave img name) w)
          | None \<Rightarrow> (Inr (), (emit (ImgSave img name) w)\<lparr>files := (files w)(name \<mapsto> Png img)\<rparr>))"

definition zip_open :: "ext \<Rightarrow> string \<Rightarrow> unit action" where
  \<comment> \<open>\<open>zipfile.ZipFile(name, 'w')\<close>: a new, empty archive\<close>
  "zip_open x name =
     (\<lambda>w. case zip_open_error x w name of
            Some e \<Rightarrow> (Inl e, emit (ZipOpen name) w)
          | None \<Rightarrow> (Inr (), (emit (ZipOpen name) w)\<lparr>files := (files w)(name \<mapsto> ZipArchive [])\<rparr>))"

fun entries_of :: "content option \<Rightarrow> (string \<times> content) list" where
  "entries_of (Some (ZipArchive es)) = es"
| "entries_of _ = []"

definition zip_write :: "ext \<Rightarrow> string \<Rightarrow> string \<Rightarrow> string \<Rightarrow> unit action" where
  \<comment> \<open>\<open>zipf.write(path, arcname=arc)\<close>: the file at \<open>path\<close> is read and appended as the
      entry \<open>arc\<close>; a missing file raises\<close>
  "zip_write x zname path arc =
     (\<lambda>w. case files w path of
            None \<Rightarrow> (Inl (Raised ''FileNotFoundError''), emit (ZipWrite zname path arc) w)
          | Some c \<Rightarrow>
              (case zip_write_error x w zname path arc of
                 Some e \<Rightarrow> (Inl e, emit (ZipWrite zname path arc) w)
               | None \<Rightarrow>
                   (Inr (),
                    (emit (ZipWrite zname path arc) w)
                      \<lparr>files := (files w)(zname \<mapsto>
                         ZipArchive (entries_of (files w zname) @ [(arc, c)]))\<rparr>)))"

section \<open>\<open>app.py\<close>\<close>

definition MAX_SEED :: int where
  \<comment> \<open>\<open>np.iinfo(np.int32).max\<close>\<close>
  "MAX_SEED = 2147483647"

definition save_image :: "ext \<Rightarrow> image \<Rightarrow> string action" where
  "save_image x img =
     and_then (uuid4 x) (\<lambda>u.
       let unique_name = u @ ''.png''
       in and_then (img_save x img unique_name) (\<lambda>v. ret unique_name))"

definition download_and_load :: "ext \<Rightarrow> string \<Rightarrow> string \<Rightarrow> unit action" where
  \<comment> \<open>the body of the \<open>try\<close> block of \<open>load_lora_opt\<close> (the two \<open>print\<close> calls left out)\<close>
  "download_and_load x url local_path =
     and_then (requests_get x url) (\<lambda>resp.
     and_then (raise_for_status resp) (\<lambda>u.
     and_then (open_wb x local_path) (\<lambda>u.
     and_then (write_body x local_path resp) (\<lambda>u.
       load_lora_weights x local_path ''default''))))"

definition download_branch :: "ext \<Rightarrow> string \<Rightarrow> unit action" where
  \<comment> \<open>\<open>load_lora_opt\<close> from \<open>tmp_dir = tempfile.mkdtemp()\<close> to its end\<close>
  "download_branch x url =
     and_then (mkdtemp x) (\<lambda>tmp_dir.
     and_then (urlparse_path_of x url) (\<lambda>p.
       let local_path = path_join tmp_dir (basename p)
       in try_finally (download_and_load x url local_path) (rmtree tmp_dir)))"

definition load_lora_opt :: "ext \<Rightarrow> string \<Rightarrow> unit action" where
  "load_lora_opt x lora_input0 =
     (let lora_input = strip lora_input0 in
      if lora_input = [] then ret ()
      else if contains ''/'' lora_input \<and> \<not> startswith lora_input ''http''
      then load_lora_weights x lora_input ''default''
      else if startswith lora_input ''http''
      then (let url = lora_input in
            if contains ''huggingface.co'' url \<and> \<not> contains ''/blob/'' url
               \<and> \<not> contains ''/resolve/'' url
            then and_then (urlparse_path_of x url) (\<lambda>p.
                   let repo_id = strip_chr CHR ''/'' p
                   in load_lora_weights x repo_id ''default'')
            else download_branch x
                   (if contains ''/blob/'' url then replace ''/blob/'' ''/resolve/'' url else url))
      else ret ())"

fun delete_each :: "ext \<Rightarrow> string list \<Rightarrow> unit action" where
  \<comment> \<open>\<open>for adapter in current_adapters: pipe_qwen.delete_adapters(adapter)\<close>\<close>
  "delete_each x [] = ret ()"
| "delete_each x (adapter # rest) =
     and_then (delete_adapters x adapter) (\<lambda>u. delete_each x rest)"

definition clear_adapters :: "ext \<Rightarrow> unit action" where
  \<comment> \<open>the block that \<open>generate_qwen\<close> runs twice: lines 113-116 and lines 149-152\<close>
  "clear_adapters x =
     and_then (get_list_adapters x) (\<lambda>current_adapters.
     and_then (delete_each x current_adapters) (\<lambda>u.
       disable_lora x))"

definition resolve_seed :: "ext \<Rightarrow> request \<Rightarrow> int action" where
  \<comment> \<open>lines 107-108\<close>
  "resolve_seed x req =
     (if randomize_seed req then randint x 0 MAX_SEED else ret (seed req))"

definition attach_lora :: "ext \<Rightarrow> request \<Rightarrow> bool action" where
  \<comment> \<open>lines 118-122; the value is \<open>use_lora\<close>\<close>
  "attach_lora x req =
     (if lora_input req \<noteq> [] \<and> strip (lora_input req) \<noteq> []
      then and_then (load_lora_opt x (lora_input req)) (\<lambda>u.
           and_then (set_adapters x [''default''] [lora_scale req]) (\<lambda>u.
             ret True))
      else ret False)"

fun save_images :: "ext \<Rightarrow> image list \<Rightarrow> string list action" where
  \<comment> \<open>\<open>[save_image(img) for img in images]\<close>\<close>
  "save_images x [] = ret []"
| "save_images x (img # imgs) =
     and_then (save_image x img) (\<lambda>p.
     and_then (save_images x imgs) (\<lambda>ps. ret (p # ps)))"

fun zip_write_all :: "ext \<Rightarrow> string \<Rightarrow> nat \<Rightarrow> string list \<Rightarrow> unit action" where
  \<comment> \<open>\<open>for i, img_path in enumerate(image_paths): zipf.write(img_path, arcname=f"Img_{i}.png")\<close>,
      from index \<open>i\<close> on\<close>
  "zip_write_all x zname i [] = ret ()"
| "zip_write_all x zname i (img_path # rest) =
     and_then (zip_write x zname img_path (''Img_'' @ str_nat i @ ''.png'')) (\<lambda>u.
       zip_write_all x zname (Suc i) rest)"

definition make_zip :: "ext \<Rightarrow> request \<Rightarrow> string list \<Rightarrow> string option action" where
  \<comment> \<open>lines 140-146; the value is \<open>zip_path\<close>\<close>
  "make_zip x req paths =
     (if zip_images req
      then and_then (uuid4 x) (\<lambda>u.
             let zip_name = u @ ''.zip''
             in and_then (zip_open x zip_name) (\<lambda>v.
                and_then (zip_write_all x zip_name 0 paths) (\<lambda>v.
                  ret (Some zip_name))))
      else ret None)"

definition prepare :: "ext \<Rightarrow> request \<Rightarrow> (int \<times> generator \<times> pyfloat \<times> bool) action" where
  \<comment> \<open>lines 107-122 of \<open>generate_qwen\<close>: the seed, the generator, the start time, the
      first cleanup and the attachment of the adapter\<close>
  "prepare x req =
     and_then (resolve_seed x req) (\<lambda>sd.
     and_then (manual_seed x sd) (\<lambda>g.
     and_then (time_time x) (\<lambda>start_time.
     and_then (clear_adapters x) (\<lambda>u.
     and_then (attach_lora x req) (\<lambda>use_lora.
       ret (sd, g, start_time, use_lora))))))"

definition pipe_args :: "request \<Rightarrow> generator \<Rightarrow> call_args" where
  "pipe_args req g =
     \<lparr>kw_prompt = prompt req,
      kw_negative_prompt = (if negative_prompt req \<noteq> [] then negative_prompt req else []),
      kw_height = height req,
      kw_width = width req,
      kw_guidance_scale = guidance_scale req,
      kw_num_inference_steps = num_inference_steps req,
      kw_num_images_per_prompt = num_images req,
      kw_generator = g,
      kw_output_type = ''pil''\<rparr>"

definition produce ::
  "ext \<Rightarrow> request \<Rightarrow> generator \<Rightarrow> pyfloat \<Rightarrow> (string list \<times> pyfloat \<times> string option) action" where
  \<comment> \<open>lines 124-146 of \<open>generate_qwen\<close>: the pipeline, the duration, the saved images
      and the archive\<close>
  "produce x req g start_time =
     and_then (pipe_call x (pipe_args req g)) (\<lambda>images.
     and_then (time_time x) (\<lambda>end_time.
       let dur = float_sub x end_time start_time
       in and_then (save_images x images) (\<lambda>paths.
          and_then (make_zip x req paths) (\<lambda>zp.
            ret (paths, dur, zp)))))"

definition generate_qwen :: "ext \<Rightarrow> request \<Rightarrow> result action" where
  "generate_qwen x req =
     and_then (prepare x req) (\<lambda>(sd, g, start_time, use_lora).
     and_then (produce x req g start_time) (\<lambda>(paths, dur, zp).
     and_then (clear_adapters x) (\<lambda>u.
       ret \<lparr>image_paths = paths, seed_used = sd,
            duration = format_2f x dur, zip_path = zp\<rparr>)))"

definition generate :: "ext \<Rightarrow> request \<Rightarrow> bool \<Rightarrow> result action" where
  \<comment> \<open>the wrapper: \<open>req\<close> carries the arguments it passes on, \<open>use_negative_prompt\<close> is
      its own\<close>
  "generate x req use_negative_prompt =
     (let final_negative_prompt = (if use_negative_prompt then negative_prompt req else [])
      in generate_qwen x (req\<lparr>negative_prompt := final_negative_prompt\<rparr>))"

section \<open>A reference environment\<close>

text \<open>
  \<open>urlparse(url).path\<close> of CPython 3.11 (\<open>urllib/parse.py\<close>: \<open>urlsplit\<close>, \<open>_splitnetloc\<close>,
  \<open>urlparse\<close>, \<open>_splitparams\<close>), for strings of code points below 256. Two checks of
  \<open>urlsplit\<close> are left out: the validation of a host in balanced brackets by the
  \<open>ipaddress\<close> module, and the NFKC check of a non-ASCII network location (which no
  code point below 256 fails). The concrete environments below use it.
\<close>

definition c0_or_space :: "char \<Rightarrow> bool" where
  "c0_or_space c = ((of_char c :: nat) \<le> 32)"

definition ascii_alpha :: "char \<Rightarrow> bool" where
  "ascii_alpha c =
     (let n = (of_char c :: nat) in (65 \<le> n \<and> n \<le> 90) \<or> (97 \<le> n \<and> n \<le> 122))"

definition scheme_char :: "char \<Rightarrow> bool" where
  "scheme_char c =
     (let n = (of_char c :: nat)
      in ascii_alpha c \<or> (48 \<le> n \<and> n \<le> 57) \<or> c = CHR ''+'' \<or> c = CHR ''-'' \<or> c = CHR ''.'')"

definition lower_chr :: "char \<Rightarrow> char" where
  "lower_chr c =
     (let n = (of_char c :: nat) in if 65 \<le> n \<and> n \<le> 90 then char_of (n + 32) else c)"

definition uses_params :: "string list" where
  "uses_params =
     [[], ''ftp'', ''hdl'', ''prospero'', ''http'', ''imap'', ''https'', ''shttp'', ''rtsp'',
      ''rtsps'', ''rtspu'', ''sip'', ''sips'', ''mms'', ''sftp'', ''tel'']"

definition split_scheme :: "string \<Rightarrow> string \<times> string" where
  "split_scheme url =
     (let i = length (takeWhile (\<lambda>c. c \<noteq> CHR '':'') url)
      in if CHR '':'' \<in> set url \<and> 0 < i \<and> ascii_alpha (hd url) \<and> list_all scheme_char (take i url)
         then (map lower_chr (take i url), drop (Suc i) url)
         else ([], url))"

definition netloc_delim :: "char \<Rightarrow> bool" where
  "netloc_delim c = (c = CHR ''/'' \<or> c = CHR ''?'' \<or> c = CHR ''#'')"

definition splitparams :: "string \<Rightarrow> string" where
  \<comment> \<open>the first component of \<open>_splitparams(url)\<close>\<close>
  "splitparams url =
     (if CHR ''/'' \<in> set url
      then (let seg = basename url; pre = take (length url - length seg) url
            in if CHR '';'' \<in> set seg then pre @ takeWhile (\<lambda>c. c \<noteq> CHR '';'') seg else url)
      else takeWhile (\<lambda>c. c \<noteq> CHR '';'') url)"

definition py_urlparse_path :: "string \<Rightarrow> exn + string" where
  "py_urlparse_path url0 =
     (let url1 = dropWhile c0_or_space url0;
          url2 = filter (\<lambda>c. c \<noteq> CHR 0x09 \<and> c \<noteq> CHR 0x0D \<and> c \<noteq> CHR 0x0A) url1;
          (scheme, url3) = split_scheme url2;
          has_netloc = (take 2 url3 = ''//'');
          netloc = (if has_netloc then takeWhile (\<lambda>c. \<not> netloc_delim c) (drop 2 url3) else []);
          url4 = (if has_netloc then dropWhile (\<lambda>c. \<not> netloc_delim c) (drop 2 url3) else url3)
      in if (CHR ''['' \<in> set netloc \<and> CHR '']'' \<notin> set netloc)
            \<or> (CHR '']'' \<in> set netloc \<and> CHR ''['' \<notin> set netloc)
         then Inl (Raised ''ValueError'')
         else (let url5 = takeWhile (\<lambda>c. c \<noteq> CHR ''#'') url4;
                   url6 = takeWhile (\<lambda>c. c \<noteq> CHR ''?'') url5
               in Inr (if scheme \<in> set uses_params \<and> CHR '';'' \<in> set url6
                       then splitparams url6 else url6)))"

text \<open>
  An environment in which nothing fails and the pipeline library keeps its adapters by
  name: iterating \<open>get_list_adapters()\<close> yields the names held, \<open>delete_adapters\<close> removes
  a name, \<open>load_lora_weights\<close> adds one, and a call returns as many images as asked for.
\<close>

definition ref_ext :: ext where
  "ref_ext =
     \<lparr>device = ''cuda'',
      random_bits = (\<lambda>w. 123456789 + length (log w)),
      manual_seed_error = (\<lambda>w s. None),
      clock = (\<lambda>w. PyFloat (int (length (log w))) 0),
      float_sub = (\<lambda>a b. case (a, b) of (PyFloat m e, PyFloat n f) \<Rightarrow> PyFloat (m - n) 0),
      format_2f = (\<lambda>a. case a of PyFloat m e \<Rightarrow> str_nat (nat m) @ ''.00''),
      fresh_uuid = (\<lambda>w. ''uuid-'' @ str_nat (length (log w))),
      lib_get_list_adapters = (\<lambda>w. Inr (adapters (pipe w))),
      lib_delete_adapters =
        (\<lambda>w a. (None, (pipe w)\<lparr>adapters := removeAll a (adapters (pipe w))\<rparr>)),
      lib_disable_lora = (\<lambda>w. (None, (pipe w)\<lparr>lora_enabled := False\<rparr>)),
      lib_load_lora_weights =
        (\<lambda>w src name.
           (None, (pipe w)\<lparr>adapters := List.insert name (adapters (pipe w)),
                           lora_enabled := True\<rparr>)),
      lib_set_adapters = (\<lambda>w names weights. (None, (pipe w)\<lparr>active := Some (names, weights)\<rparr>)),
      lib_call =
        (\<lambda>w args. (Inr (map Image [0..<nat (kw_num_images_per_prompt args)]), pipe w)),
      urlparse_path = py_urlparse_path,
      mkdtemp_result = (\<lambda>w. Inr (''/tmp/tmp'' @ str_nat (length (log w)))),
      http_get = (\<lambda>w url. Inr \<lparr>status_error = None, body = [''weights''], body_error = None\<rparr>),
      open_error = (\<lambda>w path. None),
      write_error = (\<lambda>w path chunk. None),
      img_save_error = (\<lambda>w img name. None),
      zip_open_error = (\<lambda>w name. None),
      zip_write_error = (\<lambda>w zname path arc. None)\<rparr>"

definition idle_pipe :: pipe_state where
  "idle_pipe = \<lparr>adapters = [], lora_enabled = False, active = None\<rparr>"

definition world0 :: world where
  \<comment> \<open>the process after start-up: no adapter, no file, nothing logged\<close>
  "world0 = \<lparr>pipe = idle_pipe, dirs = {}, files = (\<lambda>p. None), log = []\<rparr>"

definition request0 :: request where
  \<comment> \<open>the defaults of \<open>generate_qwen\<close>\<close>
  "request0 =
     \<lparr>prompt = ''a cake'', negative_prompt = [], seed = 0, width = 1024, height = 1024,
      guidance_scale = PyFloat 4 0, randomize_seed = False, num_inference_steps = 50,
      num_images = 1, zip_images = False, lora_input = [], lora_scale = PyFloat 1 0\<rparr>"

section \<open>Sequencing and the log\<close>

lemma and_then_Inl: "m w = (Inl e, w') \<Longrightarrow> and_then m f w = (Inl e, w')"
  by (simp add: and_then_def)

lemma and_then_Inr: "m w = (Inr v, w') \<Longrightarrow> and_then m f w = f v w'"
  by (simp add: and_then_def)




lemma log_record_call: "log (record_call ev p w) = log w @ [Step ev (pipe w) p]"
  by (simp add: record_call_def)


lemma files_record_call: "files (record_call ev p w) = files w"
  by (simp add: record_call_def)

lemma dirs_record_call: "dirs (record_call ev p w) = dirs w"
  by (simp add: record_call_def)

lemma log_emit: "log (emit ev w) = log w @ [Step ev (pipe w) (pipe w)]"
  by (simp add: emit_def record_call_def)


lemma files_emit: "files (emit ev w) = files w"
  by (simp add: emit_def record_call_def)

lemma dirs_emit: "dirs (emit ev w) = dirs w"
  by (simp add: emit_def record_call_def)

text \<open>
  \<open>keeps I K m\<close>: from a world that satisfies \<open>I\<close>, the statement \<open>m\<close> only appends to
  the log, every step it appends satisfies \<open>K\<close>, and the world it leaves satisfies \<open>I\<close>
  again, whatever its outcome.
\<close>

definition keeps :: "(world \<Rightarrow> bool) \<Rightarrow> (step \<Rightarrow> bool) \<Rightarrow> 'a action \<Rightarrow> bool" where
  "keeps I K m \<longleftrightarrow>
     (\<forall>w. I w \<longrightarrow> (\<exists>ss. log (snd (m w)) = log w @ ss \<and> (\<forall>s\<in>set ss. K s)) \<and> I (snd (m w)))"

lemma keepsI:
  assumes "\<And>w. I w \<Longrightarrow> \<exists>ss. log (snd (m w)) = log w @ ss \<and> (\<forall>s\<in>set ss. K s)"
    and "\<And>w. I w \<Longrightarrow> I (snd (m w))"
  shows "keeps I K m"
  using assms by (simp add: keeps_def)

lemma keepsD:
  assumes "keeps I K m" and "I w"
  shows "\<forall>s\<in>set (new_steps w (snd (m w))). K s" and "I (snd (m w))"
    and "\<exists>ss. log (snd (m w)) = log w @ ss"
  using assms by (auto simp: keeps_def new_steps_def)

lemma keeps_ret: "keeps I K (ret v)"
  by (simp add: keeps_def ret_def)

lemma keeps_and_then:
  assumes m: "keeps I K m" and f: "\<And>v. keeps I K (f v)"
  shows "keeps I K (and_then m f)"
proof (rule keepsI)
  fix w assume Iw: "I w"
  obtain r w1 where mw: "m w = (r, w1)" by (cases "m w")
  from m Iw mw obtain ss1 where ss1: "log w1 = log w @ ss1" "\<forall>s\<in>set ss1. K s" and I1: "I w1"
    by (auto simp: keeps_def)
  show "\<exists>ss. log (snd (and_then m f w)) = log w @ ss \<and> (\<forall>s\<in>set ss. K s)"
  proof (cases r)
    case (Inl e)
    with mw ss1 show ?thesis by (auto simp: and_then_def)
  next
    case (Inr v)
    from f [of v] I1 obtain ss2 where
      "log (snd (f v w1)) = log w1 @ ss2" "\<forall>s\<in>set ss2. K s"
      by (auto simp: keeps_def)
    with mw ss1 Inr show ?thesis by (auto simp: and_then_def)
  qed
  show "I (snd (and_then m f w))"
  proof (cases r)
    case (Inl e)
    with mw I1 show ?thesis by (simp add: and_then_def)
  next
    case (Inr v)
    from f [of v] I1 have "I (snd (f v w1))" by (simp add: keeps_def)
    with mw Inr show ?thesis by (simp add: and_then_def)
  qed
qed

lemma keeps_try_finally:
  assumes m: "keeps I K m" and fin: "keeps I K fin"
  shows "keeps I K (try_finally m fin)"
proof (rule keepsI)
  fix w assume Iw: "I w"
  obtain r w1 where mw: "m w = (r, w1)" by (cases "m w")
  from m Iw mw obtain ss1 where ss1: "log w1 = log w @ ss1" "\<forall>s\<in>set ss1. K s" and I1: "I w1"
    by (auto simp: keeps_def)
  obtain r2 w2 where fw: "fin w1 = (r2, w2)" by (cases "fin w1")
  from fin I1 fw obtain ss2 where ss2: "log w2 = log w1 @ ss2" "\<forall>s\<in>set ss2. K s" and I2: "I w2"
    by (auto simp: keeps_def)
  have w2: "snd (try_finally m fin w) = w2"
    using mw fw by (simp add: try_finally_def split: sum.splits)
  from ss1 ss2 show "\<exists>ss. log (snd (try_finally m fin w)) = log w @ ss \<and> (\<forall>s\<in>set ss. K s)"
    unfolding w2 by auto
  from I2 show "I (snd (try_finally m fin w))"
    unfolding w2 .
qed

lemma keeps_if:
  "(c \<Longrightarrow> keeps I K m) \<Longrightarrow> (\<not> c \<Longrightarrow> keeps I K n) \<Longrightarrow> keeps I K (if c then m else n)"
  by simp



section \<open>Facts about the string helpers\<close>

lemma dropWhile_all: "list_all P xs \<Longrightarrow> dropWhile P xs = []"
  by (induction xs) auto

lemma strip_blank: "list_all is_space s \<Longrightarrow> strip s = []"
  by (simp add: strip_def dropWhile_all)

lemma strip_empty_iff: "strip s = [] \<longleftrightarrow> list_all is_space s"
proof
  assume e: "strip s = []"
  have "dropWhile is_space s = []"
  proof (rule ccontr)
    assume ne: "dropWhile is_space s \<noteq> []"
    then have "\<not> is_space (hd (dropWhile is_space s))"
      by (rule hd_dropWhile)
    moreover from e have "\<forall>c\<in>set (dropWhile is_space s). is_space c"
      by (simp add: strip_def dropWhile_eq_Nil_conv)
    ultimately show False
      using ne hd_in_set by blast
  qed
  then show "list_all is_space s"
    by (simp add: dropWhile_eq_Nil_conv list_all_iff)
qed (rule strip_blank)

lemma contains_Nil: "\<not> contains (c # p) []"
  by simp

lemma replace_Nil: "replace old new [] = []"
  by (subst replace.simps) simp

lemma replace_hit:
  "old \<noteq> [] \<Longrightarrow> s \<noteq> [] \<Longrightarrow> startswith s old \<Longrightarrow>
     replace old new s = new @ replace old new (drop (length old) s)"
  by (subst replace.simps) simp

lemma replace_miss:
  "old \<noteq> [] \<Longrightarrow> \<not> startswith (c # cs) old \<Longrightarrow>
     replace old new (c # cs) = c # replace old new cs"
  by (subst replace.simps) simp

lemma startswith_length: "startswith s p \<Longrightarrow> length p \<le> length s"
proof -
  assume "startswith s p"
  then have "length (take (length p) s) = length p"
    by (simp add: startswith_def)
  then show ?thesis by simp
qed

lemma replace_not_shorter:
  "old \<noteq> [] \<Longrightarrow> length old \<le> length new \<Longrightarrow> length s \<le> length (replace old new s)"
proof (induction old new s rule: replace.induct)
  case (1 old new s)
  show ?case
  proof (cases s)
    case Nil
    then show ?thesis by (simp add: replace_Nil)
  next
    case (Cons c cs)
    show ?thesis
    proof (cases "startswith s old")
      case True
      with "1.IH"(1) "1.prems" Cons
      have "length (drop (length old) s) \<le> length (replace old new (drop (length old) s))"
        by simp
      with True "1.prems" Cons startswith_length [OF True] show ?thesis
        by (simp add: replace_hit)
    next
      case False
      with "1.IH"(2) "1.prems" Cons have "length cs \<le> length (replace old new cs)"
        by simp
      with False "1.prems" Cons show ?thesis
        by (simp add: replace_miss)
    qed
  qed
qed

lemma replace_longer:
  "contains old s \<Longrightarrow> old \<noteq> [] \<Longrightarrow> length old < length new \<Longrightarrow>
     length s < length (replace old new s)"
proof (induction s)
  case Nil
  then show ?case by (cases old) auto
next
  case (Cons c cs)
  show ?case
  proof (cases "startswith (c # cs) old")
    case True
    have "length (drop (length old) (c # cs))
            \<le> length (replace old new (drop (length old) (c # cs)))"
      using Cons.prems by (intro replace_not_shorter) auto
    with True Cons.prems startswith_length [OF True] show ?thesis
      by (simp add: replace_hit)
  next
    case False
    with Cons show ?thesis
      by (simp add: replace_miss)
  qed
qed

lemma replace_changes:
  "contains old s \<Longrightarrow> old \<noteq> [] \<Longrightarrow> length old < length new \<Longrightarrow> replace old new s \<noteq> s"
  using replace_longer [of old s new] by auto

section \<open>What each part of the program logs\<close>

definition logs_only :: "(event \<Rightarrow> bool) \<Rightarrow> 'a action \<Rightarrow> bool" where
  "logs_only E m = keeps (\<lambda>w. True) (\<lambda>s. E (call s)) m"

lemma logs_onlyD:
  "logs_only E m \<Longrightarrow> \<forall>s\<in>set (new_steps w (snd (m w))). E (call s)"
  unfolding logs_only_def by (rule keepsD(1)) simp_all

lemma logs_only_grows: "logs_only E m \<Longrightarrow> \<exists>ss. log (snd (m w)) = log w @ ss"
  unfolding logs_only_def by (rule keepsD(3)) simp_all

lemma logs_only_ret: "logs_only E (ret v)"
  by (simp add: logs_only_def keeps_ret)

lemma logs_only_and_then:
  "logs_only E m \<Longrightarrow> (\<And>v. logs_only E (f v)) \<Longrightarrow> logs_only E (and_then m f)"
  by (simp add: logs_only_def keeps_and_then)

lemma logs_only_try_finally:
  "logs_only E m \<Longrightarrow> logs_only E fin \<Longrightarrow> logs_only E (try_finally m fin)"
  by (simp add: logs_only_def keeps_try_finally)


lemma logs_only_one:
  assumes "\<And>w. \<exists>p. log (snd (m w)) = log w @ [Step ev (pipe w) p]" and "E ev"
  shows "logs_only E m"
  unfolding logs_only_def
proof (rule keepsI)
  fix w
  from assms(1) obtain p where "log (snd (m w)) = log w @ [Step ev (pipe w) p]" by blast
  with assms(2) show "\<exists>ss. log (snd (m w)) = log w @ ss \<and> (\<forall>s\<in>set ss. E (call s))"
    by auto
qed simp

lemma logs_only_none:
  assumes "\<And>w. log (snd (m w)) = log w"
  shows "logs_only E m"
  unfolding logs_only_def by (rule keepsI) (simp_all add: assms)

lemma logs_randint: "E (RandInt a b) \<Longrightarrow> logs_only E (randint x a b)"
  by (rule logs_only_one [where ev = "RandInt a b"]) (auto simp: randint_def log_emit)

lemma logs_manual_seed: "E (ManualSeed s) \<Longrightarrow> logs_only E (manual_seed x s)"
  by (rule logs_only_one [where ev = "ManualSeed s"]) (auto simp: manual_seed_def log_emit)

lemma logs_time_time: "E TimeTime \<Longrightarrow> logs_only E (time_time x)"
  by (rule logs_only_one [where ev = TimeTime]) (auto simp: time_time_def log_emit)

lemma logs_uuid4: "E Uuid4 \<Longrightarrow> logs_only E (uuid4 x)"
  by (rule logs_only_one [where ev = Uuid4]) (auto simp: uuid4_def log_emit)

lemma logs_get_list_adapters: "E GetListAdapters \<Longrightarrow> logs_only E (get_list_adapters x)"
  by (rule logs_only_one [where ev = GetListAdapters]) (auto simp: get_list_adapters_def log_emit)

lemma logs_delete_adapters: "E (DeleteAdapters a) \<Longrightarrow> logs_only E (delete_adapters x a)"
  by (rule logs_only_one [where ev = "DeleteAdapters a"])
     (auto simp: delete_adapters_def log_record_call split: prod.splits)

lemma logs_disable_lora: "E DisableLora \<Longrightarrow> logs_only E (disable_lora x)"
  by (rule logs_only_one [where ev = DisableLora])
     (auto simp: disable_lora_def log_record_call split: prod.splits)

lemma logs_load_lora_weights:
  "E (LoadLoraWeights src name) \<Longrightarrow> logs_only E (load_lora_weights x src name)"
  by (rule logs_only_one [where ev = "LoadLoraWeights src name"])
     (auto simp: load_lora_weights_def log_record_call split: prod.splits)


lemma logs_pipe_call: "E (PipeCall args) \<Longrightarrow> logs_only E (pipe_call x args)"
  by (rule logs_only_one [where ev = "PipeCall args"])
     (auto simp: pipe_call_def log_record_call split: prod.splits)

lemma logs_urlparse_path_of: "logs_only E (urlparse_path_of x url)"
  by (rule logs_only_none) (simp add: urlparse_path_of_def)

lemma logs_mkdtemp: "E MkDtemp \<Longrightarrow> logs_only E (mkdtemp x)"
  by (rule logs_only_one [where ev = MkDtemp])
     (auto simp: mkdtemp_def log_emit split: sum.splits)

lemma logs_rmtree: "E (Rmtree d) \<Longrightarrow> logs_only E (rmtree d)"
  by (rule logs_only_one [where ev = "Rmtree d"]) (auto simp: rmtree_def log_emit)

lemma logs_requests_get: "E (RequestsGet url) \<Longrightarrow> logs_only E (requests_get x url)"
  by (rule logs_only_one [where ev = "RequestsGet url"]) (auto simp: requests_get_def log_emit)

lemma logs_raise_for_status: "E RaiseForStatus \<Longrightarrow> logs_only E (raise_for_status resp)"
  by (rule logs_only_one [where ev = RaiseForStatus]) (auto simp: raise_for_status_def log_emit)

lemma logs_open_wb: "E (OpenWb path) \<Longrightarrow> logs_only E (open_wb x path)"
  by (rule logs_only_one [where ev = "OpenWb path"])
     (auto simp: open_wb_def log_emit split: option.splits)

lemma logs_write_chunk: "E (WriteChunk path c) \<Longrightarrow> logs_only E (write_chunk x path c)"
  by (rule logs_only_one [where ev = "WriteChunk path c"])
     (auto simp: write_chunk_def log_emit split: option.splits)

lemma logs_img_save: "E (ImgSave img name) \<Longrightarrow> logs_only E (img_save x img name)"
  by (rule logs_only_one [where ev = "ImgSave img name"])
     (auto simp: img_save_def log_emit split: option.splits)

lemma logs_zip_open: "E (ZipOpen name) \<Longrightarrow> logs_only E (zip_open x name)"
  by (rule logs_only_one [where ev = "ZipOpen name"])
     (auto simp: zip_open_def log_emit split: option.splits)

lemma logs_zip_write: "E (ZipWrite z p a) \<Longrightarrow> logs_only E (zip_write x z p a)"
  by (rule logs_only_one [where ev = "ZipWrite z p a"])
     (auto simp: zip_write_def log_emit split: option.splits)

text \<open>The calls of the cleanup block, of the seed and clock, and of lines 124-146.\<close>

fun clear_event :: "event \<Rightarrow> bool" where
  "clear_event GetListAdapters = True"
| "clear_event (DeleteAdapters a) = True"
| "clear_event DisableLora = True"
| "clear_event ev = False"

fun detach_event :: "event \<Rightarrow> bool" where
  "detach_event (DeleteAdapters a) = True"
| "detach_event DisableLora = True"
| "detach_event ev = False"

fun attach_event :: "event \<Rightarrow> bool" where
  "attach_event (LoadLoraWeights src name) = True"
| "attach_event (SetAdapters ns ws) = True"
| "attach_event ev = False"

fun start_event :: "event \<Rightarrow> bool" where
  "start_event (RandInt a b) = True"
| "start_event (ManualSeed s) = True"
| "start_event TimeTime = True"
| "start_event ev = False"

fun produce_event :: "event \<Rightarrow> bool" where
  "produce_event (PipeCall args) = True"
| "produce_event TimeTime = True"
| "produce_event Uuid4 = True"
| "produce_event (ImgSave img name) = True"
| "produce_event (ZipOpen name) = True"
| "produce_event (ZipWrite z p a) = True"
| "produce_event ev = False"

fun file_event :: "event \<Rightarrow> bool" where
  "file_event Uuid4 = True"
| "file_event (ImgSave img name) = True"
| "file_event (ZipOpen name) = True"
| "file_event (ZipWrite z p a) = True"
| "file_event ev = False"

fun download_event :: "event \<Rightarrow> bool" where
  "download_event MkDtemp = True"
| "download_event (RequestsGet url) = True"
| "download_event RaiseForStatus = True"
| "download_event (OpenWb path) = True"
| "download_event (WriteChunk path c) = True"
| "download_event (Rmtree d) = True"
| "download_event ev = False"

lemma logs_delete_each:
  "(\<And>a. E (DeleteAdapters a)) \<Longrightarrow> logs_only E (delete_each x as)"
  by (induction as) (auto intro!: logs_only_ret logs_only_and_then logs_delete_adapters)

lemma logs_clear_adapters:
  assumes "\<And>ev. clear_event ev \<Longrightarrow> E ev"
  shows "logs_only E (clear_adapters x)"
  unfolding clear_adapters_def
  by (intro logs_only_and_then logs_get_list_adapters logs_delete_each logs_disable_lora assms)
     simp_all

lemma logs_save_image:
  assumes "\<And>ev. file_event ev \<Longrightarrow> E ev"
  shows "logs_only E (save_image x img)"
  unfolding save_image_def Let_def
  by (intro logs_only_and_then logs_uuid4 logs_img_save logs_only_ret assms) simp_all

lemma logs_save_images:
  assumes "\<And>ev. file_event ev \<Longrightarrow> E ev"
  shows "logs_only E (save_images x imgs)"
  by (induction imgs) (auto intro!: logs_only_ret logs_only_and_then logs_save_image assms)

lemma logs_zip_write_all:
  assumes "\<And>ev. file_event ev \<Longrightarrow> E ev"
  shows "logs_only E (zip_write_all x z i ps)"
  by (induction ps arbitrary: i)
     (auto intro!: logs_only_ret logs_only_and_then logs_zip_write assms)

lemma logs_make_zip:
  assumes "\<And>ev. file_event ev \<Longrightarrow> E ev"
  shows "logs_only E (make_zip x req ps)"
  unfolding make_zip_def Let_def
  by (auto intro!: logs_only_ret logs_only_and_then logs_uuid4 logs_zip_open
        logs_zip_write_all assms)

lemma file_event_produce: "file_event ev \<Longrightarrow> produce_event ev"
  by (cases ev) auto

lemma logs_produce:
  assumes "\<And>ev. produce_event ev \<Longrightarrow> E ev"
  shows "logs_only E (produce x req g st)"
proof -
  have f: "file_event ev \<Longrightarrow> E ev" for ev
    by (rule assms) (rule file_event_produce)
  have t: "E TimeTime" and p: "E (PipeCall a)" for a
    by (rule assms, simp)+
  show ?thesis
    unfolding produce_def Let_def
    by (intro logs_only_ret logs_only_and_then logs_pipe_call [of E, OF p]
          logs_time_time [of E, OF t] logs_save_images [of E, OF f] logs_make_zip [of E, OF f])
qed

lemma logs_resolve_seed:
  assumes "\<And>ev. start_event ev \<Longrightarrow> E ev"
  shows "logs_only E (resolve_seed x req)"
  unfolding resolve_seed_def
  by (auto intro!: logs_only_ret logs_randint assms)

section \<open>Running the program in the reference environment\<close>

lemma str_nat_digit: "n < 10 \<Longrightarrow> str_nat n = [digit_chr n]"
  by (subst str_nat.simps) simp

lemmas string_defs =
  strip_def strip_chr_def is_space_def startswith_def basename_def path_join_def
  digit_chr_def str_nat_digit

lemmas urlparse_defs =
  py_urlparse_path_def c0_or_space_def ascii_alpha_def scheme_char_def lower_chr_def
  uses_params_def split_scheme_def netloc_delim_def splitparams_def

lemmas call_defs =
  Let_def ret_def and_then_def try_finally_def record_call_def emit_def new_steps_def outcome_def
  randint_def manual_seed_def time_time_def uuid4_def get_list_adapters_def
  delete_adapters_def disable_lora_def load_lora_weights_def set_adapters_def pipe_call_def
  urlparse_path_of_def mkdtemp_def rmtree_def requests_get_def raise_for_status_def
  open_wb_def write_chunk_def write_body_def img_save_def zip_open_def zip_write_def

lemmas program_defs =
  MAX_SEED_def save_image_def download_and_load_def download_branch_def load_lora_opt_def
  clear_adapters_def resolve_seed_def attach_lora_def make_zip_def prepare_def pipe_args_def
  produce_def generate_qwen_def generate_def

lemmas ref_defs = ref_ext_def idle_pipe_def world0_def request0_def

section \<open>The wrapper \<open>generate\<close>\<close>

text \<open>
  C7. \<open>generate\<close> returns what \<open>generate_qwen\<close> returns on the same arguments and in the
  same world, with the negative prompt passed through when \<open>use_negative_prompt\<close> is true
  and replaced by the empty string when it is false. (The decorator \<open>spaces.GPU\<close> on both
  functions belongs to the hosting framework and is not part of the model.)
\<close>

theorem generate_mirrors_generate_qwen:
  "generate x req True = generate_qwen x req
   \<and> generate x req False = generate_qwen x (req\<lparr>negative_prompt := []\<rparr>)"
  by (simp add: generate_def)

section \<open>A blank LoRA input\<close>

lemma load_lora_opt_blank: "strip s = [] \<Longrightarrow> load_lora_opt x s = ret ()"
  by (simp add: load_lora_opt_def)

lemma attach_lora_blank: "strip (lora_input req) = [] \<Longrightarrow> attach_lora x req = ret False"
  by (simp add: attach_lora_def)

lemma generate_qwen_blank_eq:
  assumes "strip s = []"
  shows "generate_qwen x (req\<lparr>lora_input := s\<rparr>) = generate_qwen x (req\<lparr>lora_input := []\<rparr>)"
proof -
  have "attach_lora x (req\<lparr>lora_input := s\<rparr>) = attach_lora x (req\<lparr>lora_input := []\<rparr>)"
    using assms by (simp add: attach_lora_def)
  then show ?thesis
    by (simp add: generate_qwen_def prepare_def resolve_seed_def produce_def pipe_args_def
        make_zip_def)
qed

lemma logs_generate_qwen_blank:
  assumes "strip (lora_input req) = []"
  shows "logs_only (\<lambda>ev. \<not> attach_event ev) (generate_qwen x req)"
proof -
  let ?E = "\<lambda>ev. \<not> attach_event ev"
  have s: "start_event ev \<Longrightarrow> \<not> attach_event ev" for ev by (cases ev) auto
  have c: "clear_event ev \<Longrightarrow> \<not> attach_event ev" for ev by (cases ev) auto
  have p: "produce_event ev \<Longrightarrow> \<not> attach_event ev" for ev by (cases ev) auto
  note parts =
    logs_resolve_seed [of ?E, OF s] logs_manual_seed [of ?E] logs_time_time [of ?E]
    logs_clear_adapters [of ?E, OF c] logs_produce [of ?E, OF p]
  show ?thesis
    unfolding generate_qwen_def prepare_def attach_lora_blank [OF assms]
    by (auto intro!: logs_only_and_then logs_only_ret parts)
qed

text \<open>
  C10. For a LoRA input that is empty or made of whitespace only, \<open>load_lora_opt\<close> returns
  without a call and without a change of the world, \<open>generate_qwen\<close> does exactly what it
  does for the empty input, and it calls neither \<open>load_lora_weights\<close> nor \<open>set_adapters\<close>.
\<close>

theorem blank_lora_input_ignored:
  assumes "list_all is_space s"
  shows "load_lora_opt x s w = (Inr (), w)
       \<and> generate_qwen x (req\<lparr>lora_input := s\<rparr>) w = generate_qwen x (req\<lparr>lora_input := []\<rparr>) w
       \<and> (\<forall>st\<in>set (new_steps w (snd (generate_qwen x (req\<lparr>lora_input := s\<rparr>) w))).
            \<not> attach_event (call st))"
proof -
  from assms have b: "strip s = []" by (rule strip_blank)
  have "load_lora_opt x s w = (Inr (), w)"
    by (simp add: load_lora_opt_blank [OF b] ret_def)
  moreover have "generate_qwen x (req\<lparr>lora_input := s\<rparr>) w
                   = generate_qwen x (req\<lparr>lora_input := []\<rparr>) w"
    by (simp add: generate_qwen_blank_eq [OF b])
  moreover have "\<forall>st\<in>set (new_steps w (snd (generate_qwen x (req\<lparr>lora_input := s\<rparr>) w))).
                   \<not> attach_event (call st)"
    by (rule logs_onlyD) (simp add: logs_generate_qwen_blank b)
  ultimately show ?thesis by blast
qed

theorem blank_lora_input_ignored_witness:
  "list_all is_space [CHR 0x20, CHR 0x09]
   \<and> load_lora_opt ref_ext [CHR 0x20, CHR 0x09] world0 = (Inr (), world0)
   \<and> generate_qwen ref_ext (request0\<lparr>lora_input := [CHR 0x20, CHR 0x09]\<rparr>) world0
       = generate_qwen ref_ext (request0\<lparr>lora_input := []\<rparr>) world0
   \<and> list_all (\<lambda>st. \<not> attach_event (call st)) (new_steps world0
          (snd (generate_qwen ref_ext (request0\<lparr>lora_input := [CHR 0x20, CHR 0x09]\<rparr>) world0)))
   \<and> map call (new_steps world0
          (snd (generate_qwen ref_ext (request0\<lparr>lora_input := [CHR 0x20, CHR 0x09]\<rparr>) world0)))
       = [ManualSeed 0, TimeTime, GetListAdapters, DisableLora,
          PipeCall (pipe_args request0 (Generator ''cuda'' 0)),
          TimeTime, Uuid4, ImgSave (Image 0) ''uuid-6.png'', GetListAdapters, DisableLora]"
proof -
  have h: "list_all is_space [CHR 0x20, CHR 0x09]"
    by (simp add: is_space_def)
  have run: "map call (new_steps world0
          (snd (generate_qwen ref_ext (request0\<lparr>lora_input := [CHR 0x20, CHR 0x09]\<rparr>) world0)))
       = [ManualSeed 0, TimeTime, GetListAdapters, DisableLora,
          PipeCall (pipe_args request0 (Generator ''cuda'' 0)),
          TimeTime, Uuid4, ImgSave (Image 0) ''uuid-6.png'', GetListAdapters, DisableLora]"
    by (simp add: program_defs call_defs ref_defs string_defs)
  from blank_lora_input_ignored [OF h, of ref_ext world0 request0] h run
  show ?thesis unfolding list_all_iff by blast
qed

section \<open>A registry identifier\<close>

text \<open>
  C5, as \<open>load_lora_opt\<close> has it: the input is stripped of surrounding whitespace first.
  When the stripped input contains a slash and does not start with \<open>http\<close>, the only call
  that \<open>load_lora_opt\<close> makes is \<open>load_lora_weights\<close> on the stripped input with the adapter
  name \<open>default\<close>; so nothing is downloaded.
\<close>

theorem registry_id_loaded_directly:
  assumes "contains ''/'' (strip s)" and "\<not> startswith (strip s) ''http''"
  shows "map call (new_steps w (snd (load_lora_opt x s w)))
           = [LoadLoraWeights (strip s) ''default'']"
proof -
  from assms(1) have "strip s \<noteq> []" by auto
  with assms have "load_lora_opt x s = load_lora_weights x (strip s) ''default''"
    by (simp add: load_lora_opt_def)
  then show ?thesis
    by (simp add: load_lora_weights_def new_steps_def log_record_call split: prod.splits)
qed

theorem registry_id_loaded_directly_witness:
  "contains ''/'' (strip ''owner/name '') \<and> \<not> startswith (strip ''owner/name '') ''http''
   \<and> map call (new_steps world0 (snd (load_lora_opt ref_ext ''owner/name '' world0)))
       = [LoadLoraWeights ''owner/name'' ''default'']"
proof -
  have s: "strip ''owner/name '' = ''owner/name''"
    by (simp add: string_defs)
  have h1: "contains ''/'' (strip ''owner/name '')"
    unfolding s by (simp add: startswith_def)
  have h2: "\<not> startswith (strip ''owner/name '') ''http''"
    unfolding s by (simp add: startswith_def)
  from registry_id_loaded_directly [OF h1 h2, of world0 ref_ext] h1 h2 s
  show ?thesis by simp
qed

text \<open>
  The claim as the specification words it speaks of the input itself. The input below
  contains a slash and does not start with \<open>http\<close> (it starts with a space), and
  \<open>load_lora_opt\<close> downloads a file for it and loads the local copy.
\<close>

lemma strip_example_url:
  "strip '' https://example.com/lora.safetensors'' = ''https://example.com/lora.safetensors''"
  by (simp add: strip_def is_space_def)

lemma path_example_url:
  "py_urlparse_path ''https://example.com/lora.safetensors'' = Inr ''/lora.safetensors''"
  by (simp add: urlparse_defs)

theorem registry_id_unstripped_counterexample:
  "contains ''/'' '' https://example.com/lora.safetensors''
   \<and> \<not> startswith '' https://example.com/lora.safetensors'' ''http''
   \<and> map call (new_steps world0
        (snd (load_lora_opt ref_ext '' https://example.com/lora.safetensors'' world0)))
       = [MkDtemp, RequestsGet ''https://example.com/lora.safetensors'', RaiseForStatus,
          OpenWb ''/tmp/tmp0/lora.safetensors'',
          WriteChunk ''/tmp/tmp0/lora.safetensors'' ''weights'',
          LoadLoraWeights ''/tmp/tmp0/lora.safetensors'' ''default'',
          Rmtree ''/tmp/tmp0'']"
  by (simp add: program_defs call_defs ref_defs strip_example_url path_example_url
      startswith_def basename_def path_join_def str_nat_digit digit_chr_def)

section \<open>An input that starts with \<open>http\<close>\<close>

text \<open>
  \<open>load_lora_opt\<close> takes an input for a URL when, stripped, it starts with \<open>http\<close>; any
  other input with a slash is a registry identifier (C5). The claims about URLs are read
  with that notion.
\<close>

lemma load_lora_opt_http:
  assumes "startswith (strip s) ''http''"
  shows "load_lora_opt x s =
           (if contains ''huggingface.co'' (strip s) \<and> \<not> contains ''/blob/'' (strip s)
               \<and> \<not> contains ''/resolve/'' (strip s)
            then and_then (urlparse_path_of x (strip s)) (\<lambda>p.
                   load_lora_weights x (strip_chr CHR ''/'' p) ''default'')
            else download_branch x
                   (if contains ''/blob/'' (strip s)
                    then replace ''/blob/'' ''/resolve/'' (strip s) else strip s))"
proof -
  from assms have "strip s \<noteq> []" by (auto simp: startswith_def)
  with assms show ?thesis by (simp add: load_lora_opt_def Let_def)
qed

definition branch_event :: "string \<Rightarrow> event \<Rightarrow> bool" where
  \<comment> \<open>the calls of the download branch for \<open>url\<close>\<close>
  "branch_event url ev =
     (case ev of
        RequestsGet v \<Rightarrow> v = url
      | LoadLoraWeights src name \<Rightarrow> name = ''default''
      | _ \<Rightarrow> download_event ev)"

lemma logs_write_chunks:
  "(\<And>c. E (WriteChunk path c)) \<Longrightarrow> logs_only E (write_chunks x path cs)"
  by (induction cs) (auto intro!: logs_only_ret logs_only_and_then logs_write_chunk)

lemma logs_write_body:
  "(\<And>c. E (WriteChunk path c)) \<Longrightarrow> logs_only E (write_body x path resp)"
  unfolding write_body_def
  by (intro logs_only_and_then logs_write_chunks logs_only_none) simp_all

lemma logs_download_and_load:
  assumes "\<And>ev. branch_event url ev \<Longrightarrow> E ev"
  shows "logs_only E (download_and_load x url lp)"
  unfolding download_and_load_def
  by (intro logs_only_and_then logs_requests_get logs_raise_for_status logs_open_wb
        logs_write_body logs_load_lora_weights assms)
     (simp_all add: branch_event_def)

lemma logs_download_branch:
  assumes "\<And>ev. branch_event url ev \<Longrightarrow> E ev"
  shows "logs_only E (download_branch x url)"
  unfolding download_branch_def Let_def
  by (intro logs_only_and_then logs_mkdtemp logs_urlparse_path_of logs_only_try_finally
        logs_download_and_load logs_rmtree assms)
     (simp_all add: branch_event_def)

lemma download_branch_starts:
  assumes "mkdtemp_result x w = Inr d" and "urlparse_path x url = Inr p"
  shows "\<exists>ss. map call (new_steps w (snd (download_branch x url w)))
                 = MkDtemp # RequestsGet url # ss"
proof -
  define w1 where "w1 = (emit MkDtemp w)\<lparr>dirs := insert d (dirs w)\<rparr>"
  define lp where "lp = path_join d (basename p)"
  define w2 where "w2 = emit (RequestsGet url) w1"
  have l1: "log w1 = log w @ [Step MkDtemp (pipe w) (pipe w)]"
    by (simp add: w1_def log_emit)
  have l2: "log w2 = log w1 @ [Step (RequestsGet url) (pipe w1) (pipe w1)]"
    by (simp add: w2_def log_emit)
  have br: "download_branch x url w = try_finally (download_and_load x url lp) (rmtree d) w1"
    using assms
    by (simp add: download_branch_def and_then_def mkdtemp_def urlparse_path_of_def w1_def
        lp_def Let_def)
  let ?rest = "\<lambda>resp. and_then (raise_for_status resp) (\<lambda>u.
     and_then (open_wb x lp) (\<lambda>u.
     and_then (write_body x lp resp) (\<lambda>u.
       load_lora_weights x lp ''default'')))"
  have rest: "logs_only (\<lambda>ev. True) (?rest resp)" for resp
    by (intro logs_only_and_then logs_raise_for_status logs_open_wb logs_write_body
        logs_load_lora_weights) simp_all
  have "\<exists>ss. log (snd (download_and_load x url lp w1)) = log w2 @ ss"
  proof (cases "http_get x w1 url")
    case (Inl e)
    then show ?thesis
      by (simp add: download_and_load_def and_then_def requests_get_def w2_def)
  next
    case (Inr resp)
    then have "download_and_load x url lp w1 = ?rest resp w2"
      by (simp add: download_and_load_def and_then_def requests_get_def w2_def)
    with logs_only_grows [OF rest, of resp w2] show ?thesis by simp
  qed
  then obtain ss where ss: "log (snd (download_and_load x url lp w1)) = log w2 @ ss" ..
  obtain r w3 where d3: "download_and_load x url lp w1 = (r, w3)"
    by (cases "download_and_load x url lp w1")
  have "log (snd (try_finally (download_and_load x url lp) (rmtree d) w1))
          = log w3 @ [Step (Rmtree d) (pipe w3) (pipe w3)]"
    using d3 by (simp add: try_finally_def rmtree_def log_emit)
  with ss d3 l1 l2 br show ?thesis
    by (simp add: new_steps_def)
qed

text \<open>
  C9, as \<open>load_lora_opt\<close> has it: only an input that, stripped, starts with \<open>http\<close> is
  taken for a URL (line 61). When the stripped input starts with \<open>http\<close> and contains
  \<open>/blob/\<close>, \<open>load_lora_opt\<close> runs its download branch on the URL in which every
  \<open>/blob/\<close> is replaced by \<open>/resolve/\<close>. That URL differs from the original one, every
  \<open>requests.get\<close> of the run is on it, and once the temporary directory is made and the
  URL's path is parsed, the next call is \<open>requests.get\<close> on it.
\<close>

theorem blob_url_rewritten_before_download:
  assumes "startswith (strip s) ''http''" and "contains ''/blob/'' (strip s)"
  shows "load_lora_opt x s = download_branch x (replace ''/blob/'' ''/resolve/'' (strip s))
       \<and> replace ''/blob/'' ''/resolve/'' (strip s) \<noteq> strip s
       \<and> (\<forall>st\<in>set (new_steps w (snd (load_lora_opt x s w))). \<forall>v.
            call st = RequestsGet v \<longrightarrow> v = replace ''/blob/'' ''/resolve/'' (strip s))
       \<and> (\<forall>d p. mkdtemp_result x w = Inr d
              \<longrightarrow> urlparse_path x (replace ''/blob/'' ''/resolve/'' (strip s)) = Inr p
              \<longrightarrow> (\<exists>ss. map call (new_steps w (snd (load_lora_opt x s w)))
                          = MkDtemp # RequestsGet (replace ''/blob/'' ''/resolve/'' (strip s)) # ss))"
proof -
  let ?u = "replace ''/blob/'' ''/resolve/'' (strip s)"
  have eq: "load_lora_opt x s = download_branch x ?u"
    using assms by (simp add: load_lora_opt_http)
  have ne: "?u \<noteq> strip s"
    using assms(2) by (intro replace_changes) simp_all
  have "logs_only (\<lambda>ev. \<forall>v. ev = RequestsGet v \<longrightarrow> v = ?u) (download_branch x ?u)"
    by (rule logs_download_branch) (auto simp: branch_event_def)
  then have ev: "\<forall>st\<in>set (new_steps w (snd (load_lora_opt x s w))). \<forall>v.
                   call st = RequestsGet v \<longrightarrow> v = ?u"
    unfolding eq by (rule logs_onlyD)
  from eq ne ev download_branch_starts [of x w _ ?u] show ?thesis
    by simp
qed

lemma strip_blob_url:
  "strip ''https://huggingface.co/owner/name/blob/main/lora.safetensors ''
     = ''https://huggingface.co/owner/name/blob/main/lora.safetensors''"
  by (simp add: strip_def is_space_def)

lemma replace_blob_url:
  "replace ''/blob/'' ''/resolve/'' ''https://huggingface.co/owner/name/blob/main/lora.safetensors''
     = ''https://huggingface.co/owner/name/resolve/main/lora.safetensors''"
  by (simp add: replace_hit replace_miss replace_Nil startswith_def)

lemma path_resolve_url:
  "py_urlparse_path ''https://huggingface.co/owner/name/resolve/main/lora.safetensors''
     = Inr ''/owner/name/resolve/main/lora.safetensors''"
  by (simp add: urlparse_defs)

theorem blob_url_rewritten_before_download_witness:
  "startswith (strip ''https://huggingface.co/owner/name/blob/main/lora.safetensors '') ''http''
   \<and> contains ''/blob/'' (strip ''https://huggingface.co/owner/name/blob/main/lora.safetensors '')
   \<and> load_lora_opt ref_ext ''https://huggingface.co/owner/name/blob/main/lora.safetensors ''
       = download_branch ref_ext ''https://huggingface.co/owner/name/resolve/main/lora.safetensors''
   \<and> map call (new_steps world0 (snd (load_lora_opt ref_ext
         ''https://huggingface.co/owner/name/blob/main/lora.safetensors '' world0)))
       = [MkDtemp, RequestsGet ''https://huggingface.co/owner/name/resolve/main/lora.safetensors'',
          RaiseForStatus, OpenWb ''/tmp/tmp0/lora.safetensors'',
          WriteChunk ''/tmp/tmp0/lora.safetensors'' ''weights'',
          LoadLoraWeights ''/tmp/tmp0/lora.safetensors'' ''default'', Rmtree ''/tmp/tmp0'']"
proof -
  let ?s = "''https://huggingface.co/owner/name/blob/main/lora.safetensors ''"
  let ?u = "''https://huggingface.co/owner/name/resolve/main/lora.safetensors''"
  have h1: "startswith (strip ?s) ''http''"
    unfolding strip_blob_url by (simp add: startswith_def)
  have h2: "contains ''/blob/'' (strip ?s)"
    unfolding strip_blob_url by (simp add: startswith_def)
  have eq: "load_lora_opt ref_ext ?s = download_branch ref_ext ?u"
    using blob_url_rewritten_before_download [OF h1 h2, of ref_ext world0]
    by (simp add: strip_blob_url replace_blob_url)
  have run: "map call (new_steps world0 (snd (download_branch ref_ext ?u world0)))
       = [MkDtemp, RequestsGet ?u, RaiseForStatus, OpenWb ''/tmp/tmp0/lora.safetensors'',
          WriteChunk ''/tmp/tmp0/lora.safetensors'' ''weights'',
          LoadLoraWeights ''/tmp/tmp0/lora.safetensors'' ''default'', Rmtree ''/tmp/tmp0'']"
    by (simp add: program_defs call_defs ref_defs path_resolve_url
        startswith_def basename_def path_join_def str_nat_digit digit_chr_def)
  from h1 h2 eq run show ?thesis by simp
qed

text \<open>
  The claim as the specification words it speaks of every URL that contains \<open>/blob/\<close>.
  The URL below contains it and does not start with \<open>http\<close>: lines 57-59 take it for a
  registry identifier and load it as it is, with no rewrite and no download.
\<close>

theorem blob_url_without_http_counterexample:
  "contains ''/blob/'' ''ftp://example.com/blob/lora.safetensors''
   \<and> map call (new_steps world0
        (snd (load_lora_opt ref_ext ''ftp://example.com/blob/lora.safetensors'' world0)))
       = [LoadLoraWeights ''ftp://example.com/blob/lora.safetensors'' ''default'']"
  by (simp add: load_lora_opt_def call_defs ref_defs strip_def is_space_def startswith_def)

text \<open>
  C8, as \<open>load_lora_opt\<close> has it: the test of line 65 looks for \<open>/blob/\<close> and \<open>/resolve/\<close>
  in the whole URL, not in its path. When the stripped input starts with \<open>http\<close>,
  contains \<open>huggingface.co\<close> and contains neither \<open>/blob/\<close> nor \<open>/resolve/\<close> anywhere, the
  only call of \<open>load_lora_opt\<close> is \<open>load_lora_weights\<close> on the URL's path without its
  surrounding slashes; when \<open>urlparse\<close> raises, the exception propagates and nothing is
  called. Either way nothing is downloaded.
\<close>

theorem landing_page_loaded_by_path:
  assumes "startswith (strip s) ''http''" and "contains ''huggingface.co'' (strip s)"
    and "\<not> contains ''/blob/'' (strip s)" and "\<not> contains ''/resolve/'' (strip s)"
  shows "(\<forall>p. urlparse_path x (strip s) = Inr p \<longrightarrow>
            map call (new_steps w (snd (load_lora_opt x s w)))
              = [LoadLoraWeights (strip_chr CHR ''/'' p) ''default''])
       \<and> (\<forall>e. urlparse_path x (strip s) = Inl e \<longrightarrow> load_lora_opt x s w = (Inl e, w))"
proof -
  have eq: "load_lora_opt x s =
              and_then (urlparse_path_of x (strip s)) (\<lambda>p.
                load_lora_weights x (strip_chr CHR ''/'' p) ''default'')"
    using assms by (simp add: load_lora_opt_http)
  show ?thesis
    unfolding eq
    by (auto simp: and_then_def urlparse_path_of_def load_lora_weights_def new_steps_def
        log_record_call split: prod.splits)
qed

lemma strip_landing_url:
  "strip ''https://huggingface.co/owner/name/'' = ''https://huggingface.co/owner/name/''"
  by (simp add: strip_def is_space_def)

lemma path_landing_url:
  "py_urlparse_path ''https://huggingface.co/owner/name/'' = Inr ''/owner/name/''"
  by (simp add: urlparse_defs)

theorem landing_page_loaded_by_path_witness:
  "startswith (strip ''https://huggingface.co/owner/name/'') ''http''
   \<and> contains ''huggingface.co'' (strip ''https://huggingface.co/owner/name/'')
   \<and> \<not> contains ''/blob/'' (strip ''https://huggingface.co/owner/name/'')
   \<and> \<not> contains ''/resolve/'' (strip ''https://huggingface.co/owner/name/'')
   \<and> urlparse_path ref_ext (strip ''https://huggingface.co/owner/name/'') = Inr ''/owner/name/''
   \<and> map call (new_steps world0
        (snd (load_lora_opt ref_ext ''https://huggingface.co/owner/name/'' world0)))
       = [LoadLoraWeights ''owner/name'' ''default'']"
proof -
  let ?s = "''https://huggingface.co/owner/name/''"
  have h1: "startswith (strip ?s) ''http''"
    unfolding strip_landing_url by (simp add: startswith_def)
  have h2: "contains ''huggingface.co'' (strip ?s)"
    unfolding strip_landing_url by (simp add: startswith_def)
  have h3: "\<not> contains ''/blob/'' (strip ?s)"
    unfolding strip_landing_url by (simp add: startswith_def)
  have h4: "\<not> contains ''/resolve/'' (strip ?s)"
    unfolding strip_landing_url by (simp add: startswith_def)
  have h5: "urlparse_path ref_ext (strip ?s) = Inr ''/owner/name/''"
    by (simp add: ref_ext_def strip_landing_url path_landing_url)
  have sc: "strip_chr CHR ''/'' ''/owner/name/'' = ''owner/name''"
    by (simp add: strip_chr_def)
  from landing_page_loaded_by_path [OF h1 h2 h3 h4, of ref_ext world0] h5
  have "map call (new_steps world0 (snd (load_lora_opt ref_ext ?s world0)))
          = [LoadLoraWeights (strip_chr CHR ''/'' ''/owner/name/'') ''default'']"
    by blast
  with h1 h2 h3 h4 h5 sc show ?thesis by simp
qed

text \<open>
  The claim as the specification words it speaks of the path. The path of the URL below
  is \<open>/owner/name\<close>, which contains neither segment; the query contains \<open>/resolve/\<close>, and
  \<open>load_lora_opt\<close> downloads the URL instead of loading \<open>owner/name\<close>.
\<close>

lemma strip_query_url:
  "strip ''https://huggingface.co/owner/name?tab=/resolve/''
     = ''https://huggingface.co/owner/name?tab=/resolve/''"
  by (simp add: strip_def is_space_def)

lemma path_query_url:
  "py_urlparse_path ''https://huggingface.co/owner/name?tab=/resolve/'' = Inr ''/owner/name''"
  by (simp add: urlparse_defs)

theorem landing_page_query_counterexample:
  "contains ''huggingface.co'' ''https://huggingface.co/owner/name?tab=/resolve/''
   \<and> urlparse_path ref_ext ''https://huggingface.co/owner/name?tab=/resolve/''
       = Inr ''/owner/name''
   \<and> \<not> contains ''/blob/'' ''/owner/name'' \<and> \<not> contains ''/resolve/'' ''/owner/name''
   \<and> map call (new_steps world0
        (snd (load_lora_opt ref_ext ''https://huggingface.co/owner/name?tab=/resolve/'' world0)))
       = [MkDtemp, RequestsGet ''https://huggingface.co/owner/name?tab=/resolve/'',
          RaiseForStatus, OpenWb ''/tmp/tmp0/name'', WriteChunk ''/tmp/tmp0/name'' ''weights'',
          LoadLoraWeights ''/tmp/tmp0/name'' ''default'', Rmtree ''/tmp/tmp0'']"
  by (simp add: program_defs call_defs ref_defs strip_query_url path_query_url
      startswith_def basename_def path_join_def str_nat_digit digit_chr_def)

section \<open>The temporary directory of a download\<close>

lemma rmtree_removes: "d \<notin> dirs (snd (rmtree d w))"
  by (simp add: rmtree_def)

lemma try_finally_rmtree:
  "try_finally m (rmtree d) w = (fst (m w), snd (rmtree d (snd (m w))))"
  by (cases "m w") (simp add: try_finally_def rmtree_def)

text \<open>
  From the \<open>try\<close> statement on, the directory is removed on every path: whatever the
  request, the status check, the writes and the load do, \<open>rmtree\<close> is the last call and
  the directory is gone.
\<close>

lemma download_branch_removes_dir:
  assumes "mkdtemp_result x w = Inr d" and "urlparse_path x url = Inr p"
  shows "d \<notin> dirs (snd (download_branch x url w))"
    and "\<exists>ss. map call (new_steps w (snd (download_branch x url w))) = ss @ [Rmtree d]"
proof -
  define w1 where "w1 = (emit MkDtemp w)\<lparr>dirs := insert d (dirs w)\<rparr>"
  define lp where "lp = path_join d (basename p)"
  have br: "download_branch x url w = try_finally (download_and_load x url lp) (rmtree d) w1"
    using assms
    by (simp add: download_branch_def and_then_def mkdtemp_def urlparse_path_of_def w1_def
        lp_def Let_def)
  show "d \<notin> dirs (snd (download_branch x url w))"
    unfolding br try_finally_rmtree by (simp add: rmtree_removes)
  have "logs_only (\<lambda>ev. True) (download_and_load x url lp)"
    by (rule logs_download_and_load) simp
  from logs_only_grows [OF this, of w1] obtain ss where
    ss: "log (snd (download_and_load x url lp w1)) = log w1 @ ss" ..
  have l1: "log w1 = log w @ [Step MkDtemp (pipe w) (pipe w)]"
    by (simp add: w1_def log_emit)
  show "\<exists>ss. map call (new_steps w (snd (download_branch x url w))) = ss @ [Rmtree d]"
    unfolding br try_finally_rmtree
    by (simp add: rmtree_def log_emit ss l1 new_steps_def)
qed

text \<open>
  C4. Between \<open>tempfile.mkdtemp()\<close> (line 75) and the \<open>try\<close> statement (line 78),
  line 76 parses the URL. For the input \<open>http://[\<close> the download branch is reached, the
  directory is made, \<open>urlparse\<close> raises \<open>ValueError\<close> (a bracket without its partner in the
  network location), and \<open>load_lora_opt\<close> is left with the directory in place: the only
  call is \<open>mkdtemp\<close>, and no \<open>rmtree\<close> follows.
\<close>

lemma strip_bracket_url: "strip ''http://['' = ''http://[''"
  by (simp add: strip_def is_space_def)

lemma path_bracket_url: "py_urlparse_path ''http://['' = Inl (Raised ''ValueError'')"
  by (simp add: urlparse_defs)

theorem temp_dir_left_when_urlparse_raises:
  "fst (load_lora_opt ref_ext ''http://['' world0) = Inl (Raised ''ValueError'')
   \<and> map call (new_steps world0 (snd (load_lora_opt ref_ext ''http://['' world0))) = [MkDtemp]
   \<and> dirs world0 = {}
   \<and> dirs (snd (load_lora_opt ref_ext ''http://['' world0)) = {''/tmp/tmp0''}"
  by (simp add: program_defs call_defs ref_defs strip_bracket_url path_bracket_url
      startswith_def str_nat_digit digit_chr_def)

section \<open>\<open>generate_qwen\<close>, statement by statement\<close>

definition body :: "ext \<Rightarrow> request \<Rightarrow> int \<Rightarrow> generator \<Rightarrow> result action" where
  \<comment> \<open>\<open>generate_qwen\<close> from line 111 on, for the seed and the generator of lines 107-109\<close>
  "body x req sd g =
     and_then (time_time x) (\<lambda>start_time.
     and_then (clear_adapters x) (\<lambda>u.
     and_then (attach_lora x req) (\<lambda>use_lora.
     and_then (produce x req g start_time) (\<lambda>(paths, dur, zp).
     and_then (clear_adapters x) (\<lambda>u.
       ret \<lparr>image_paths = paths, seed_used = sd,
            duration = format_2f x dur, zip_path = zp\<rparr>)))))"


lemma and_then_InrD:
  assumes "and_then m f w = (Inr r, w')"
  obtains v w1 where "m w = (Inr v, w1)" and "f v w1 = (Inr r, w')"
  using assms by (auto simp: and_then_def split: prod.splits sum.splits)

lemma and_then_fst_InrD:
  assumes "fst (and_then m f w) = Inr r"
  obtains v where "fst (m w) = Inr v" and "fst (f v (snd (m w))) = Inr r"
    and "snd (and_then m f w) = snd (f v (snd (m w)))"
  using assms by (auto simp: and_then_def split: prod.splits sum.splits)



definition produce_call :: "request \<Rightarrow> generator \<Rightarrow> event \<Rightarrow> bool" where
  \<comment> \<open>the calls of lines 124-146, the pipeline being called with the arguments of the
      request and the generator \<open>g\<close>\<close>
  "produce_call req g ev =
     (case ev of PipeCall a \<Rightarrow> a = pipe_args req g | _ \<Rightarrow> produce_event ev)"

lemma produce_call_event: "produce_call req g ev \<Longrightarrow> produce_event ev"
  by (cases ev) (auto simp: produce_call_def)













section \<open>An exception between the attachment and the second cleanup\<close>

lemma produce_never_detaches: "logs_only (\<lambda>ev. \<not> detach_event ev) (produce x req g st)"
proof (rule logs_produce)
  fix ev
  assume "produce_event ev"
  then show "\<not> detach_event ev" by (cases ev) simp_all
qed

text \<open>
  C2. Let lines 107-122 have run (\<open>prepare\<close>: the adapter, if any, is attached). If a
  statement of lines 124-146 (\<open>produce\<close>: the pipeline call, the clock, saving the images,
  the archive) raises, \<open>generate_qwen\<close> ends there with that exception, in the world in
  which it was raised: no handler runs, and none of the calls made since the attachment
  is \<open>delete_adapters\<close> or \<open>disable_lora\<close>. If these statements return, the cleanup of
  lines 149-152 is the next statement.
\<close>

theorem no_cleanup_when_produce_raises:
  assumes "fst (prepare x req w) = Inr (sd, g, st, use_lora)"
  shows "(\<forall>e. fst (produce x req g st (snd (prepare x req w))) = Inl e \<longrightarrow>
            generate_qwen x req w = (Inl e, snd (produce x req g st (snd (prepare x req w))))
            \<and> (\<forall>s\<in>set (new_steps (snd (prepare x req w)) (snd (generate_qwen x req w))).
                  \<not> detach_event (call s)))
       \<and> (\<forall>paths dur zp.
            fst (produce x req g st (snd (prepare x req w))) = Inr (paths, dur, zp) \<longrightarrow>
            generate_qwen x req w =
              and_then (clear_adapters x) (\<lambda>u.
                ret \<lparr>image_paths = paths, seed_used = sd,
                     duration = format_2f x dur, zip_path = zp\<rparr>)
                (snd (produce x req g st (snd (prepare x req w)))))"
proof -
  define w1 where "w1 = snd (prepare x req w)"
  define w2 where "w2 = snd (produce x req g st w1)"
  have p: "prepare x req w = (Inr (sd, g, st, use_lora), w1)"
    using assms by (simp add: w1_def prod_eq_iff)
  have raised: "generate_qwen x req w = (Inl e, w2)" if "fst (produce x req g st w1) = Inl e" for e
  proof -
    from that have "produce x req g st w1 = (Inl e, w2)"
      by (simp add: w2_def prod_eq_iff)
    with p show ?thesis
      by (simp add: generate_qwen_def and_then_def)
  qed
  have quiet: "\<forall>s\<in>set (new_steps w1 w2). \<not> detach_event (call s)"
    unfolding w2_def by (rule logs_onlyD) (rule produce_never_detaches)
  have returned: "generate_qwen x req w =
              and_then (clear_adapters x) (\<lambda>u.
                ret \<lparr>image_paths = paths, seed_used = sd,
                     duration = format_2f x dur, zip_path = zp\<rparr>) w2"
    if "fst (produce x req g st w1) = Inr (paths, dur, zp)" for paths dur zp
  proof -
    from that have "produce x req g st w1 = (Inr (paths, dur, zp), w2)"
      by (simp add: w2_def prod_eq_iff)
    with p show ?thesis
      by (simp add: generate_qwen_def and_then_def)
  qed
  from raised quiet returned show ?thesis
    unfolding w1_def [symmetric] w2_def [symmetric] by simp
qed

definition raising_call_ext :: ext where
  \<comment> \<open>the reference environment, with a pipeline whose call raises\<close>
  "raising_call_ext =
     ref_ext\<lparr>lib_call := (\<lambda>w args. (Inl (Raised ''RuntimeError''), pipe w))\<rparr>"

theorem no_cleanup_when_produce_raises_witness:
  "fst (prepare raising_call_ext (request0\<lparr>lora_input := ''owner/name''\<rparr>) world0)
     = Inr (0, Generator ''cuda'' 0, PyFloat 1 0, True)
   \<and> fst (produce raising_call_ext (request0\<lparr>lora_input := ''owner/name''\<rparr>)
            (Generator ''cuda'' 0) (PyFloat 1 0)
            (snd (prepare raising_call_ext (request0\<lparr>lora_input := ''owner/name''\<rparr>) world0)))
     = Inl (Raised ''RuntimeError'')
   \<and> fst (generate_qwen raising_call_ext (request0\<lparr>lora_input := ''owner/name''\<rparr>) world0)
     = Inl (Raised ''RuntimeError'')
   \<and> list_all (\<lambda>s. \<not> detach_event (call s))
        (new_steps (snd (prepare raising_call_ext (request0\<lparr>lora_input := ''owner/name''\<rparr>) world0))
          (snd (generate_qwen raising_call_ext (request0\<lparr>lora_input := ''owner/name''\<rparr>) world0)))
   \<and> adapters (pipe (snd (generate_qwen raising_call_ext
          (request0\<lparr>lora_input := ''owner/name''\<rparr>) world0))) = [''default'']"
proof -
  let ?X = raising_call_ext
  let ?R = "request0\<lparr>lora_input := ''owner/name''\<rparr>"
  have h1: "fst (prepare ?X ?R world0) = Inr (0, Generator ''cuda'' 0, PyFloat 1 0, True)"
    by (simp add: raising_call_ext_def program_defs call_defs ref_defs string_defs)
  have ad: "adapters (pipe (snd (prepare ?X ?R world0))) = [''default'']"
    by (simp add: raising_call_ext_def program_defs call_defs ref_defs string_defs)
  have h2: "fst (produce ?X ?R (Generator ''cuda'' 0) (PyFloat 1 0) (snd (prepare ?X ?R world0)))
              = Inl (Raised ''RuntimeError'')"
    by (simp add: produce_def pipe_call_def and_then_def raising_call_ext_def ref_ext_def
        split: prod.splits)
  have keep: "pipe (snd (produce ?X ?R (Generator ''cuda'' 0) (PyFloat 1 0) w1)) = pipe w1" for w1
    by (simp add: produce_def pipe_call_def and_then_def raising_call_ext_def ref_ext_def
        record_call_def)
  from no_cleanup_when_produce_raises [OF h1] h2
  have gq: "generate_qwen ?X ?R world0
              = (Inl (Raised ''RuntimeError''),
                 snd (produce ?X ?R (Generator ''cuda'' 0) (PyFloat 1 0)
                       (snd (prepare ?X ?R world0))))"
    and nd: "\<forall>s\<in>set (new_steps (snd (prepare ?X ?R world0)) (snd (generate_qwen ?X ?R world0))).
                \<not> detach_event (call s)"
    by blast+
  from gq have "adapters (pipe (snd (generate_qwen ?X ?R world0))) = [''default'']"
    by (simp add: keep ad)
  with h1 h2 gq nd show ?thesis
    by (simp add: list_all_iff)
qed

section \<open>The archive\<close>

definition img_name :: "nat \<Rightarrow> string" where
  \<comment> \<open>\<open>f"Img_{i}.png"\<close>\<close>
  "img_name i = ''Img_'' @ str_nat i @ ''.png''"

lemma png_not_zip: "u @ ''.png'' \<noteq> v @ ''.zip''"
proof
  assume "u @ ''.png'' = v @ ''.zip''"
  then have "last (u @ ''.png'') = last (v @ ''.zip'')" by simp
  then show False by simp
qed

lemma save_image_png:
  assumes "fst (save_image x img w) = Inr p"
  shows "\<exists>u. p = u @ ''.png''"
  using assms
  by (auto simp: save_image_def Let_def and_then_def uuid4_def img_save_def ret_def
      split: option.splits)

lemma save_images_png:
  "fst (save_images x imgs w) = Inr ps \<Longrightarrow> \<forall>p\<in>set ps. \<exists>u. p = u @ ''.png''"
proof (induction imgs arbitrary: w ps)
  case Nil
  then show ?case by (simp add: ret_def)
next
  case (Cons img imgs)
  from Cons.prems obtain p where
    p: "fst (save_image x img w) = Inr p"
    and rest: "fst (and_then (save_images x imgs) (\<lambda>ps. ret (p # ps))
                 (snd (save_image x img w))) = Inr ps"
    by (auto elim: and_then_fst_InrD)
  from rest obtain qs where
    qs: "fst (save_images x imgs (snd (save_image x img w))) = Inr qs" and "ps = p # qs"
    by (auto elim!: and_then_fst_InrD simp: ret_def)
  with Cons.IH [OF qs] save_image_png [OF p] show ?case by auto
qed

lemma zip_write_ok:
  assumes "fst (zip_write x z p arc w) = Inr u"
  shows "\<exists>c. files w p = Some c
           \<and> files (snd (zip_write x z p arc w))
               = (files w)(z \<mapsto> ZipArchive (entries_of (files w z) @ [(arc, c)]))"
  using assms
  by (auto simp: zip_write_def files_emit split: option.splits)

lemma zip_write_all_entries:
  assumes "fst (zip_write_all x z i ps w) = Inr u" and "z \<notin> set ps"
    and "files w z = Some (ZipArchive es0)"
  shows "\<exists>es. files (snd (zip_write_all x z i ps w)) z = Some (ZipArchive (es0 @ es))
           \<and> map fst es = map img_name [i..<i + length ps]
           \<and> map (Some \<circ> snd) es = map (files w) ps
           \<and> (\<forall>p. p \<noteq> z \<longrightarrow> files (snd (zip_write_all x z i ps w)) p = files w p)"
  using assms
proof (induction ps arbitrary: i w es0)
  case Nil
  then show ?case by (simp add: ret_def)
next
  case (Cons p ps)
  define arc where "arc = ''Img_'' @ str_nat i @ ''.png''"
  define w1 where "w1 = snd (zip_write x z p arc w)"
  have unf: "zip_write_all x z i (p # ps) =
               and_then (zip_write x z p arc) (\<lambda>u. zip_write_all x z (Suc i) ps)"
    by (simp add: arc_def)
  from Cons.prems(1) obtain v where
    first: "fst (zip_write x z p arc w) = Inr v"
    and rest: "fst (zip_write_all x z (Suc i) ps w1) = Inr u"
    and sn: "snd (zip_write_all x z i (p # ps) w) = snd (zip_write_all x z (Suc i) ps w1)"
    unfolding unf w1_def by (rule and_then_fst_InrD)
  from zip_write_ok [OF first] Cons.prems(3) obtain c where
    c: "files w p = Some c"
    and f1: "files w1 = (files w)(z \<mapsto> ZipArchive ((es0 @ [(arc, c)])))"
    unfolding w1_def by auto
  from Cons.prems(2) have zp: "z \<noteq> p" and zps: "z \<notin> set ps" by auto
  from f1 have z1: "files w1 z = Some (ZipArchive (es0 @ [(arc, c)]))" by simp
  from Cons.IH [OF rest zps z1] obtain es where
    e1: "files (snd (zip_write_all x z (Suc i) ps w1)) z
           = Some (ZipArchive ((es0 @ [(arc, c)]) @ es))"
    and e2: "map fst es = map img_name [Suc i..<Suc i + length ps]"
    and e3: "map (Some \<circ> snd) es = map (files w1) ps"
    and e4: "\<forall>q. q \<noteq> z \<longrightarrow> files (snd (zip_write_all x z (Suc i) ps w1)) q = files w1 q"
    by blast
  have same: "map (files w1) ps = map (files w) ps"
    using zps by (auto simp: f1)
  have up: "[i..<i + length (p # ps)] = i # [Suc i..<Suc i + length ps]"
    by (subst upt_conv_Cons) simp_all
  have an: "arc = img_name i"
    by (simp add: arc_def img_name_def)
  show ?case
  proof (intro exI [of _ "(arc, c) # es"] conjI)
    show "files (snd (zip_write_all x z i (p # ps) w)) z
            = Some (ZipArchive (es0 @ (arc, c) # es))"
      unfolding sn using e1 by simp
    show "map fst ((arc, c) # es) = map img_name [i..<i + length (p # ps)]"
      unfolding up using e2 an by simp
    show "map (Some \<circ> snd) ((arc, c) # es) = map (files w) (p # ps)"
      using e3 same c by simp
    show "\<forall>q. q \<noteq> z \<longrightarrow> files (snd (zip_write_all x z i (p # ps) w)) q = files w q"
      unfolding sn using e4 by (simp add: f1)
  qed
qed

lemma make_zip_result:
  assumes "fst (make_zip x req ps w) = Inr zp" and "\<forall>p\<in>set ps. \<exists>u. p = u @ ''.png''"
  shows "(zp \<noteq> None) = zip_images req"
    and "\<forall>z. zp = Some z \<longrightarrow>
           (\<exists>es. files (snd (make_zip x req ps w)) z = Some (ZipArchive es)
              \<and> map fst es = map img_name [0..<length ps]
              \<and> map (Some \<circ> snd) es = map (files (snd (make_zip x req ps w))) ps)"
proof -
  show "(zp \<noteq> None) = zip_images req"
    using assms(1)
    by (cases "zip_images req")
       (auto simp: make_zip_def Let_def ret_def elim!: and_then_fst_InrD)
  show "\<forall>z. zp = Some z \<longrightarrow>
           (\<exists>es. files (snd (make_zip x req ps w)) z = Some (ZipArchive es)
              \<and> map fst es = map img_name [0..<length ps]
              \<and> map (Some \<circ> snd) es = map (files (snd (make_zip x req ps w))) ps)"
  proof (cases "zip_images req")
    case False
    with assms(1) show ?thesis by (simp add: make_zip_def ret_def)
  next
    case True
    define z where "z = fresh_uuid x w @ ''.zip''"
    define w1 where "w1 = emit Uuid4 w"
    define w2 where "w2 = snd (zip_open x z w1)"
    define w3 where "w3 = snd (zip_write_all x z 0 ps w2)"
    have mz: "make_zip x req ps w =
                and_then (zip_open x z) (\<lambda>v.
                and_then (zip_write_all x z 0 ps) (\<lambda>v. ret (Some z))) w1"
      using True by (simp add: make_zip_def Let_def and_then_def uuid4_def z_def w1_def)
    from assms(1) obtain v where
      op: "fst (zip_open x z w1) = Inr v"
      and r1: "fst (and_then (zip_write_all x z 0 ps) (\<lambda>v. ret (Some z)) w2) = Inr zp"
      and s1: "snd (make_zip x req ps w)
                 = snd (and_then (zip_write_all x z 0 ps) (\<lambda>v. ret (Some z)) w2)"
      unfolding mz w2_def by (auto elim: and_then_fst_InrD)
    from r1 obtain v' where
      wr: "fst (zip_write_all x z 0 ps w2) = Inr v'" and zp: "zp = Some z"
      and s2: "snd (and_then (zip_write_all x z 0 ps) (\<lambda>v. ret (Some z)) w2) = w3"
      unfolding w3_def by (auto elim!: and_then_fst_InrD simp: ret_def)
    have fin: "snd (make_zip x req ps w) = w3"
      using s1 s2 by simp
    have opened: "files w2 z = Some (ZipArchive [])"
      using op by (auto simp: w2_def zip_open_def split: option.splits)
    have zps: "z \<notin> set ps"
      using assms(2) png_not_zip by (auto simp: z_def)
    from zip_write_all_entries [OF wr zps opened] obtain es where
      e1: "files w3 z = Some (ZipArchive es)"
      and e2: "map fst es = map img_name [0..<length ps]"
      and e3: "map (Some \<circ> snd) es = map (files w2) ps"
      and e4: "\<forall>q. q \<noteq> z \<longrightarrow> files w3 q = files w2 q"
      unfolding w3_def by auto
    have "map (files w3) ps = map (files w2) ps"
      using zps e4 by auto
    with e1 e2 e3 zp show ?thesis
      unfolding fin by auto
  qed
qed

text \<open>
  \<open>ensures P m Q\<close>: when \<open>m\<close> starts in a world that satisfies \<open>P\<close> and returns a value,
  the value and the world it leaves satisfy \<open>Q\<close>.
\<close>

definition ensures :: "(world \<Rightarrow> bool) \<Rightarrow> 'a action \<Rightarrow> ('a \<Rightarrow> world \<Rightarrow> bool) \<Rightarrow> bool" where
  "ensures P m Q \<longleftrightarrow> (\<forall>w r. P w \<longrightarrow> fst (m w) = Inr r \<longrightarrow> Q r (snd (m w)))"

lemma ensuresD: "ensures P m Q \<Longrightarrow> P w \<Longrightarrow> fst (m w) = Inr r \<Longrightarrow> Q r (snd (m w))"
  by (simp add: ensures_def)

lemma ensures_ret: "(\<And>w. P w \<Longrightarrow> Q v w) \<Longrightarrow> ensures P (ret v) Q"
  by (simp add: ensures_def ret_def)

lemma ensures_and_then:
  assumes "ensures P m R" and "\<And>v. ensures (R v) (f v) Q"
  shows "ensures P (and_then m f) Q"
  unfolding ensures_def
proof (intro allI impI)
  fix w r
  assume P: "P w" and r: "fst (and_then m f w) = Inr r"
  from r obtain v where v: "fst (m w) = Inr v" and fv: "fst (f v (snd (m w))) = Inr r"
    and sn: "snd (and_then m f w) = snd (f v (snd (m w)))"
    by (rule and_then_fst_InrD)
  from ensuresD [OF assms(1) P v] have "R v (snd (m w))" .
  from ensuresD [OF assms(2) this fv] show "Q r (snd (and_then m f w))"
    unfolding sn .
qed


lemma ensures_files:
  assumes "\<And>w. files (snd (m w)) = files w"
  shows "ensures (\<lambda>w. Z (files w)) m (\<lambda>r w. Z (files w))"
  by (simp add: ensures_def assms)

lemma files_and_then:
  assumes "\<And>w. files (snd (m w)) = files w" and "\<And>v w. files (snd (f v w)) = files w"
  shows "files (snd (and_then m f w)) = files w"
proof (cases "m w")
  case (Pair r w1)
  with assms(1) [of w] have "files w1 = files w" by simp
  with Pair assms(2) show ?thesis
    by (cases r) (simp_all add: and_then_def)
qed

lemma files_delete_each: "files (snd (delete_each x as w)) = files w"
proof (induction as arbitrary: w)
  case Nil
  show ?case by (simp add: ret_def)
next
  case (Cons a as)
  have "files (snd (delete_adapters x a w')) = files w'" for w'
    by (simp add: delete_adapters_def files_record_call split: prod.splits)
  with Cons show ?case
    by (simp add: files_and_then)
qed

lemma files_clear_adapters: "files (snd (clear_adapters x w)) = files w"
proof -
  have d: "files (snd (disable_lora x w')) = files w'" for w'
    by (simp add: disable_lora_def files_record_call split: prod.splits)
  have g: "files (snd (get_list_adapters x w')) = files w'" for w'
    by (simp add: get_list_adapters_def files_emit)
  show ?thesis
    unfolding clear_adapters_def
    by (intro files_and_then g files_delete_each d)
qed

lemma ensures_save_images:
  "ensures (\<lambda>w. True) (save_images x imgs) (\<lambda>ps w. \<forall>p\<in>set ps. \<exists>u. p = u @ ''.png'')"
  unfolding ensures_def using save_images_png by blast

definition archive_ok :: "string list \<Rightarrow> string option \<Rightarrow> (string \<Rightarrow> content option) \<Rightarrow> bool" where
  \<comment> \<open>in the files \<open>fs\<close>, the archive \<open>zp\<close> (if any) has one entry per path, named
      \<open>Img_0.png\<close>, \<open>Img_1.png\<close>, ... in the order of the paths, each holding the file at its
      path\<close>
  "archive_ok paths zp fs \<longleftrightarrow>
     (\<forall>z. zp = Some z \<longrightarrow>
        (\<exists>es. fs z = Some (ZipArchive es)
           \<and> map fst es = map img_name [0..<length paths]
           \<and> map (Some \<circ> snd) es = map fs paths))"

lemma ensures_make_zip:
  "ensures (\<lambda>w. \<forall>p\<in>set ps. \<exists>u. p = u @ ''.png'') (make_zip x req ps)
     (\<lambda>zp w. (zp \<noteq> None) = zip_images req \<and> archive_ok ps zp (files w))"
  unfolding ensures_def archive_ok_def
  using make_zip_result by blast

lemma ensures_produce:
  "ensures (\<lambda>w. True) (produce x req g st)
     (\<lambda>r w. case r of (paths, dur, zp) \<Rightarrow>
        (zp \<noteq> None) = zip_images req \<and> archive_ok paths zp (files w))"
  unfolding produce_def Let_def
proof (intro ensures_and_then)
  show "ensures (\<lambda>w. True) (pipe_call x (pipe_args req g)) (\<lambda>images w. True)"
    by (simp add: ensures_def)
  show "ensures (\<lambda>w. True) (time_time x) (\<lambda>end_time w. True)" for images :: "image list"
    by (simp add: ensures_def)
  show "ensures (\<lambda>w. True) (save_images x images)
          (\<lambda>ps w. \<forall>p\<in>set ps. \<exists>u. p = u @ ''.png'')" for images
    by (rule ensures_save_images)
  show "ensures (\<lambda>w. \<forall>p\<in>set ps. \<exists>u. p = u @ ''.png'') (make_zip x req ps)
          (\<lambda>zp w. (zp \<noteq> None) = zip_images req \<and> archive_ok ps zp (files w))" for ps
    by (rule ensures_make_zip)
  show "ensures (\<lambda>w. (zp \<noteq> None) = zip_images req \<and> archive_ok ps zp (files w))
          (ret (ps, d, zp))
          (\<lambda>r w. case r of (paths, dur, zp) \<Rightarrow>
             (zp \<noteq> None) = zip_images req \<and> archive_ok paths zp (files w))" for ps d zp
    by (rule ensures_ret) simp
qed

lemma ensures_generate_qwen:
  "ensures (\<lambda>w. True) (generate_qwen x req)
     (\<lambda>res w. (zip_path res \<noteq> None) = zip_images req
               \<and> archive_ok (image_paths res) (zip_path res) (files w))"
  unfolding generate_qwen_def
proof (rule ensures_and_then [where R = "\<lambda>v w. True"])
  show "ensures (\<lambda>w. True) (prepare x req) (\<lambda>v w. True)"
    by (simp add: ensures_def)
  fix v :: "int \<times> generator \<times> pyfloat \<times> bool"
  obtain sd g st use_lora where v: "v = (sd, g, st, use_lora)"
    by (cases v) auto
  have "ensures (\<lambda>w. True)
          (and_then (produce x req g st) (\<lambda>(paths, dur, zp).
             and_then (clear_adapters x) (\<lambda>u.
               ret \<lparr>image_paths = paths, seed_used = sd,
                    duration = format_2f x dur, zip_path = zp\<rparr>)))
          (\<lambda>res w. (zip_path res \<noteq> None) = zip_images req
               \<and> archive_ok (image_paths res) (zip_path res) (files w))"
  proof (rule ensures_and_then [OF ensures_produce])
    fix r :: "string list \<times> pyfloat \<times> string option"
    obtain paths dur zp where r: "r = (paths, dur, zp)"
      by (cases r) auto
    let ?Z = "\<lambda>fs. (zp \<noteq> None) = zip_images req \<and> archive_ok paths zp fs"
    have "ensures (\<lambda>w. ?Z (files w))
            (and_then (clear_adapters x) (\<lambda>u.
               ret \<lparr>image_paths = paths, seed_used = sd,
                    duration = format_2f x dur, zip_path = zp\<rparr>))
            (\<lambda>res w. (zip_path res \<noteq> None) = zip_images req
               \<and> archive_ok (image_paths res) (zip_path res) (files w))"
      by (rule ensures_and_then [OF ensures_files [of "clear_adapters x" ?Z]])
         (simp_all add: files_clear_adapters ensures_ret)
    then show "ensures
            (\<lambda>w. case r of (paths, dur, zp) \<Rightarrow>
               (zp \<noteq> None) = zip_images req \<and> archive_ok paths zp (files w))
            (case r of (paths, dur, zp) \<Rightarrow>
               and_then (clear_adapters x) (\<lambda>u.
                 ret \<lparr>image_paths = paths, seed_used = sd,
                      duration = format_2f x dur, zip_path = zp\<rparr>))
            (\<lambda>res w. (zip_path res \<noteq> None) = zip_images req
               \<and> archive_ok (image_paths res) (zip_path res) (files w))"
      by (simp add: r)
  qed
  then show "ensures (\<lambda>w. True)
          (case v of (sd, g, start_time, use_lora) \<Rightarrow>
             and_then (produce x req g start_time) (\<lambda>(paths, dur, zp).
               and_then (clear_adapters x) (\<lambda>u.
                 ret \<lparr>image_paths = paths, seed_used = sd,
                      duration = format_2f x dur, zip_path = zp\<rparr>)))
          (\<lambda>res w. (zip_path res \<noteq> None) = zip_images req
               \<and> archive_ok (image_paths res) (zip_path res) (files w))"
    by (simp add: v)
qed

text \<open>
  C6. When \<open>generate_qwen\<close> returns, the archive path of the result is set exactly when
  \<open>zip_images\<close> is; and the file at that path is then an archive with one entry per
  returned image path, named \<open>Img_0.png\<close>, \<open>Img_1.png\<close>, ... in the order of the paths,
  the entry at each position holding the file saved at the path of that position.
\<close>

theorem zip_archive_matches_images:
  assumes "fst (generate_qwen x req w) = Inr res"
  shows "(zip_path res \<noteq> None) = zip_images req
       \<and> (\<forall>z. zip_path res = Some z \<longrightarrow>
            (\<exists>es. files (snd (generate_qwen x req w)) z = Some (ZipArchive es)
               \<and> map fst es = map img_name [0..<length (image_paths res)]
               \<and> map (Some \<circ> snd) es
                   = map (files (snd (generate_qwen x req w))) (image_paths res)))"
  using ensuresD [OF ensures_generate_qwen [of x req] TrueI assms]
  by (simp add: archive_ok_def)

lemma str_nat_ten: "str_nat (Suc (Suc (Suc (Suc (Suc (Suc (Suc (Suc (Suc (Suc 0)))))))))) = ''10''"
proof -
  have e: "Suc (Suc (Suc (Suc (Suc (Suc (Suc (Suc (Suc (Suc 0))))))))) = 10" by simp
  have "str_nat 10 = ''10''"
    by (simp add: str_nat.simps [of 10] str_nat_digit digit_chr_def)
  then show ?thesis unfolding e .
qed

theorem zip_archive_matches_images_witness:
  "fst (generate_qwen ref_ext (request0\<lparr>zip_images := True, num_images := 2\<rparr>) world0)
     = Inr \<lparr>image_paths = [''uuid-6.png'', ''uuid-8.png''], seed_used = 0,
            duration = ''4.00'', zip_path = Some ''uuid-10.zip''\<rparr>
   \<and> zip_images (request0\<lparr>zip_images := True, num_images := 2\<rparr>)
   \<and> (\<exists>es. files (snd (generate_qwen ref_ext
                (request0\<lparr>zip_images := True, num_images := 2\<rparr>) world0)) ''uuid-10.zip''
              = Some (ZipArchive es)
          \<and> map fst es = [''Img_0.png'', ''Img_1.png'']
          \<and> map (Some \<circ> snd) es
              = map (files (snd (generate_qwen ref_ext
                  (request0\<lparr>zip_images := True, num_images := 2\<rparr>) world0)))
                  [''uuid-6.png'', ''uuid-8.png''])"
proof -
  let ?R = "request0\<lparr>zip_images := True, num_images := 2\<rparr>"
  have two: "[0..<2] = [0, Suc 0]" "[0..<nat 2] = [0, Suc 0]"
    by (simp_all add: upt_rec numeral_2_eq_2)
  have run: "fst (generate_qwen ref_ext ?R world0)
     = Inr \<lparr>image_paths = [''uuid-6.png'', ''uuid-8.png''], seed_used = 0,
            duration = ''4.00'', zip_path = Some ''uuid-10.zip''\<rparr>"
    by (simp add: program_defs call_defs ref_defs string_defs str_nat_ten two)
  have names: "map img_name [0..<length [''uuid-6.png'', ''uuid-8.png'']]
                 = [''Img_0.png'', ''Img_1.png'']"
    by (simp add: img_name_def upt_rec str_nat_digit digit_chr_def)
  have z: "zip_images ?R" by (simp add: request0_def)
  from zip_archive_matches_images [OF run] names
  have "\<exists>es. files (snd (generate_qwen ref_ext ?R world0)) ''uuid-10.zip'' = Some (ZipArchive es)
          \<and> map fst es = [''Img_0.png'', ''Img_1.png'']
          \<and> map (Some \<circ> snd) es
              = map (files (snd (generate_qwen ref_ext ?R world0)))
                  [''uuid-6.png'', ''uuid-8.png'']"
    by simp
  with run z show ?thesis by blast
qed

section \<open>The adapters of the shared pipeline\<close>










subsection \<open>Statements that leave the pipeline alone\<close>

definition neutral :: "'a action \<Rightarrow> bool" where
  \<comment> \<open>\<open>m\<close> only appends to the log and never changes the state of the pipeline\<close>
  "neutral m \<longleftrightarrow>
     (\<forall>w. pipe (snd (m w)) = pipe w
        \<and> (\<exists>ss. log (snd (m w)) = log w @ ss
              \<and> (\<forall>s\<in>set ss. before s = pipe w \<and> after s = pipe w)))"




lemma neutral_try_finally:
  assumes "neutral m" and "neutral fin"
  shows "neutral (try_finally m fin)"
  unfolding neutral_def
proof (intro allI)
  fix w
  obtain r w1 where mw: "m w = (r, w1)" by (cases "m w")
  obtain r2 w2 where fw: "fin w1 = (r2, w2)" by (cases "fin w1")
  from assms(1) mw obtain ss1 where
    p1: "pipe w1 = pipe w" and l1: "log w1 = log w @ ss1"
    and s1: "\<forall>s\<in>set ss1. before s = pipe w \<and> after s = pipe w"
    by (auto simp: neutral_def dest!: spec [of _ w])
  from assms(2) fw obtain ss2 where
    p2: "pipe w2 = pipe w1" and l2: "log w2 = log w1 @ ss2"
    and s2: "\<forall>s\<in>set ss2. before s = pipe w1 \<and> after s = pipe w1"
    by (auto simp: neutral_def dest!: spec [of _ w1])
  have "snd (try_finally m fin w) = w2"
    using mw fw by (simp add: try_finally_def split: sum.splits)
  with p1 l1 s1 p2 l2 s2 show "pipe (snd (try_finally m fin w)) = pipe w
        \<and> (\<exists>ss. log (snd (try_finally m fin w)) = log w @ ss
              \<and> (\<forall>s\<in>set ss. before s = pipe w \<and> after s = pipe w))"
    by auto
qed
























subsection \<open>At most one adapter, named \<open>default\<close>\<close>














subsection \<open>The cleanup block removes every adapter\<close>







subsection \<open>The state in which the pipeline is invoked\<close>











text \<open>
  \<open>leaves P m Qe Q\<close>: from a world that satisfies \<open>P\<close>, the statement \<open>m\<close> leaves a world
  that satisfies \<open>Qe\<close> when it raises and \<open>Q\<close> when it returns.
\<close>

definition leaves ::
  "(world \<Rightarrow> bool) \<Rightarrow> 'a action \<Rightarrow> (world \<Rightarrow> bool) \<Rightarrow> ('a \<Rightarrow> world \<Rightarrow> bool) \<Rightarrow> bool" where
  "leaves P m Qe Q \<longleftrightarrow>
     (\<forall>w. P w \<longrightarrow> (\<forall>e. fst (m w) = Inl e \<longrightarrow> Qe (snd (m w)))
                \<and> (\<forall>r. fst (m w) = Inr r \<longrightarrow> Q r (snd (m w))))"




lemma leaves_strengthen:
  assumes "leaves P m Qe (\<lambda>r. Q1)" and "ensures P m Q2"
  shows "leaves P m Qe (\<lambda>r w. Q1 w \<and> Q2 r w)"
  using assms unfolding leaves_def ensures_def by blast


































end
